theory Spec2Isabelle
  imports Complex_Main
begin

section \<open>JavaScript numbers\<close>

text \<open>
  A JavaScript number is an IEEE 754 double: a finite value, which is a rational number,
  one of the two infinities, the negative zero, or NaN. \<open>Fin 0\<close> is the positive zero.
  Arithmetic is the exact operation on the rationals followed by rounding to the nearest
  double, ties to the even significand, which is how IEEE 754 defines it.
\<close>

datatype jsnum = NaN | PInf | NInf | NZero | Fin rat

text \<open>The number of binary digits of a positive integer.\<close>

function bitlen :: "int \<Rightarrow> int" where
  "bitlen n = (if n \<le> 0 then 0 else 1 + bitlen (n div 2))"
  by pat_completeness auto
termination
  by (relation "measure nat") auto

declare bitlen.simps [simp del]

text \<open>For \<open>q > 0\<close>, \<open>ilog2 q\<close> is the binary exponent \<open>e\<close> with \<open>2^e \<le> q < 2^(e+1)\<close>.\<close>

definition ilog2 :: "rat \<Rightarrow> int" where
  "ilog2 q = (let (a, b) = quotient_of q;
                  k = bitlen a - bitlen b
              in if 2 powi k \<le> q then k else k - 1)"

definition round_half_even :: "rat \<Rightarrow> int" where
  "round_half_even q =
     (let n = \<lfloor>q\<rfloor>; r = q - of_int n
      in if r < 1 / 2 then n else if 1 / 2 < r then n + 1
         else if even n then n else n + 1)"

text \<open>
  The exponent of the unit in the last place of a double of magnitude \<open>q\<close>: 53 significant
  bits, and the fixed spacing \<open>2^-1074\<close> of the subnormal range below \<open>2^-1022\<close>.
\<close>

definition ulp_exp :: "rat \<Rightarrow> int" where
  "ulp_exp q = max (ilog2 \<bar>q\<bar>) (- 1022) - 52"

definition round_double :: "rat \<Rightarrow> jsnum" where
  "round_double q =
     (if q = 0 then Fin 0
      else let u = 2 powi ulp_exp q;
               r = of_int (round_half_even (q / u)) * u
           in if 2 ^ 1024 \<le> r then PInf
              else if r \<le> - (2 ^ 1024) then NInf
              else if r = 0 \<and> q < 0 then NZero
              else Fin r)"

text \<open>The finite values that are doubles, and the well-formed numbers.\<close>

definition is_double :: "rat \<Rightarrow> bool" where
  "is_double q =
     (q = 0 \<or> (\<bar>q\<bar> < 2 ^ 1024 \<and>
        of_int \<lfloor>q / 2 powi ulp_exp q\<rfloor> = q / 2 powi ulp_exp q))"

fun wf_num :: "jsnum \<Rightarrow> bool" where
  "wf_num (Fin q) = is_double q"
| "wf_num _ = True"

text \<open>A decimal literal of the source denotes the double nearest to it.\<close>

definition lit :: "rat \<Rightarrow> jsnum" where
  "lit q = round_double q"

text \<open>\<open>Math.PI\<close>, the double nearest to \<open>\<pi>\<close>.\<close>

definition math_PI :: jsnum where
  "math_PI = Fin (884279719003555 / 2 ^ 48)"

fun rv :: "jsnum \<Rightarrow> rat" where
  "rv (Fin q) = q"
| "rv _ = 0"

fun is_inf :: "jsnum \<Rightarrow> bool" where
  "is_inf PInf = True"
| "is_inf NInf = True"
| "is_inf _ = False"

fun is_zero :: "jsnum \<Rightarrow> bool" where
  "is_zero NZero = True"
| "is_zero (Fin q) = (q = 0)"
| "is_zero _ = False"

text \<open>The sign bit.\<close>

fun neg :: "jsnum \<Rightarrow> bool" where
  "neg NInf = True"
| "neg NZero = True"
| "neg (Fin q) = (q < 0)"
| "neg _ = False"

text \<open>The comparisons \<open><\<close> and \<open><=\<close>: false as soon as one side is NaN.\<close>

fun js_lt :: "jsnum \<Rightarrow> jsnum \<Rightarrow> bool" where
  "js_lt NaN _ = False"
| "js_lt _ NaN = False"
| "js_lt PInf _ = False"
| "js_lt _ PInf = True"
| "js_lt _ NInf = False"
| "js_lt NInf _ = True"
| "js_lt a b = (rv a < rv b)"

definition js_le :: "jsnum \<Rightarrow> jsnum \<Rightarrow> bool" where
  "js_le a b = (a \<noteq> NaN \<and> b \<noteq> NaN \<and> \<not> js_lt b a)"

text \<open>
  \<open>Math.min(a, b)\<close>: NaN if an argument is NaN; otherwise the arguments are folded from
  \<open>+Infinity\<close>, and the negative zero counts as smaller than the positive one.
\<close>

definition min_step :: "jsnum \<Rightarrow> jsnum \<Rightarrow> jsnum" where
  "min_step lowest n =
     (if n = NZero \<and> lowest = Fin 0 then NZero
      else if js_lt n lowest then n else lowest)"

definition math_min :: "jsnum \<Rightarrow> jsnum \<Rightarrow> jsnum" where
  "math_min a b =
     (if a = NaN \<or> b = NaN then NaN else min_step (min_step PInf a) b)"

definition signed_inf :: "bool \<Rightarrow> jsnum" where
  "signed_inf s = (if s then NInf else PInf)"

definition signed_zero :: "bool \<Rightarrow> jsnum" where
  "signed_zero s = (if s then NZero else Fin 0)"

text \<open>The operators \<open>*\<close> and \<open>/\<close>.\<close>

definition js_mul :: "jsnum \<Rightarrow> jsnum \<Rightarrow> jsnum" where
  "js_mul a b =
     (if a = NaN \<or> b = NaN then NaN
      else if is_inf a \<or> is_inf b then
        (if is_zero a \<or> is_zero b then NaN else signed_inf (neg a \<noteq> neg b))
      else if rv a * rv b = 0 then signed_zero (neg a \<noteq> neg b)
      else round_double (rv a * rv b))"

definition js_div :: "jsnum \<Rightarrow> jsnum \<Rightarrow> jsnum" where
  "js_div a b =
     (if a = NaN \<or> b = NaN then NaN
      else if is_inf a then
        (if is_inf b then NaN else signed_inf (neg a \<noteq> neg b))
      else if is_inf b then signed_zero (neg a \<noteq> neg b)
      else if is_zero b then
        (if is_zero a then NaN else signed_inf (neg a \<noteq> neg b))
      else if is_zero a then signed_zero (neg a \<noteq> neg b)
      else round_double (rv a / rv b))"

text \<open>
  \<open>x | 0\<close> is ToInt32 of \<open>x\<close>: NaN, the infinities and the zeros give 0; a finite value
  is truncated towards zero and wrapped into the signed 32-bit range.
\<close>

definition to_int32 :: "jsnum \<Rightarrow> int" where
  "to_int32 x =
     (case x of
        Fin q \<Rightarrow>
          (let t = (if q < 0 then - \<lfloor>- q\<rfloor> else \<lfloor>q\<rfloor>);
               m = t mod 2 ^ 32
           in if 2 ^ 31 \<le> m then m - 2 ^ 32 else m)
      | _ \<Rightarrow> 0)"

subsection \<open>Numbers to strings\<close>

text \<open>The decimal digits of an integer that is not negative.\<close>

function digits10 :: "int \<Rightarrow> string" where
  "digits10 n =
     (if n < 10 then [''0123456789'' ! nat n]
      else digits10 (n div 10) @ [''0123456789'' ! nat (n mod 10)])"
  by pat_completeness auto
termination
  by (relation "measure nat") auto

declare digits10.simps [simp del]

text \<open>The string of an integer value, as a template literal inserts it.\<close>

definition int_to_string :: "int \<Rightarrow> string" where
  "int_to_string i =
     (if i < 0 then ''-'' @ digits10 (- i) else digits10 i)"

text \<open>
  The digits of \<open>Number.prototype.toFixed\<close> for a magnitude \<open>a\<close> below \<open>10^21\<close>: the integer
  \<open>n\<close> nearest to \<open>a * 10^f\<close>, the larger one of two; padded with zeros to \<open>f + 1\<close> digits;
  a point before the last \<open>f\<close> digits.
\<close>

definition fixed_digits :: "nat \<Rightarrow> rat \<Rightarrow> string" where
  "fixed_digits f a =
     (let n = \<lfloor>a * 10 ^ f + 1 / 2\<rfloor>;
          m = digits10 n;
          m' = (if length m \<le> f then replicate (f + 1 - length m) (CHR ''0'') @ m else m);
          k = length m'
      in if f = 0 then m else take (k - f) m' @ ''.'' @ drop (k - f) m')"

text \<open>
  \<open>x.toFixed(f)\<close> for \<open>0 \<le> f \<le> 100\<close>. A magnitude of \<open>10^21\<close> or more is printed by the
  general number-to-string conversion, in exponent notation; that conversion is the
  parameter \<open>big\<close>.
\<close>

definition toFixed :: "(rat \<Rightarrow> string) \<Rightarrow> nat \<Rightarrow> jsnum \<Rightarrow> string" where
  "toFixed big f x =
     (case x of
        NaN \<Rightarrow> ''NaN''
      | PInf \<Rightarrow> ''Infinity''
      | NInf \<Rightarrow> ''-Infinity''
      | NZero \<Rightarrow> fixed_digits f 0
      | Fin q \<Rightarrow>
          (if q < 0 then ''-'' else []) @
          (if 10 ^ 21 \<le> \<bar>q\<bar> then big \<bar>q\<bar> else fixed_digits f \<bar>q\<bar>))"

section \<open>The objects at the boundary of main.js\<close>

text \<open>\<open>THREE.Vector3\<close> and \<open>THREE.Euler\<close>, as far as main.js builds them.\<close>

record vector3 =
  vx :: jsnum
  vy :: jsnum
  vz :: jsnum

record euler =
  ex :: jsnum
  ey :: jsnum
  ez :: jsnum
  order :: string

text \<open>The argument of \<open>controller.setTransform\<close>.\<close>

record pose =
  position :: vector3
  euler :: euler
  throttle :: jsnum

text \<open>The options object given to \<open>new AirplaneController\<close> (main.js, lines 75 to 100).\<close>

record config =
  maxSpeed :: jsnum
  accelResponse :: jsnum
  drag :: jsnum
  pitchLimit :: jsnum
  bankLimit :: jsnum
  pitchCmdRateDeg :: jsnum
  bankCmdRateDeg :: jsnum
  pitchResponse :: jsnum
  bankResponse :: jsnum
  pitchCentering :: jsnum
  bankCentering :: jsnum
  turnRateGain :: jsnum
  yawTaxiRate :: jsnum
  stallSpeed :: jsnum
  ctrlVRange :: jsnum
  minY :: jsnum

text \<open>The object returned by \<open>controller.getStatus()\<close>, as far as the HUD reads it.\<close>

record status =
  speed :: jsnum
  pitchDeg :: jsnum
  bankDeg :: jsnum

text \<open>
  What main.js is linked against. The class \<open>AirplaneController\<close> is imported from
  airplaneController.js: its constructor and the four methods main.js calls are functions
  on the controller's state \<open>'c\<close>, which holds the plane's transform. \<open>big_to_string\<close> is
  the platform's number-to-string conversion for magnitudes of \<open>10^21\<close> and more, which
  \<open>toFixed\<close> falls back on.
\<close>

record 'c env =
  construct :: "config \<Rightarrow> 'c"
  setTransform :: "pose \<Rightarrow> 'c \<Rightarrow> 'c"
  update :: "jsnum \<Rightarrow> 'c \<Rightarrow> 'c"
  getStatus :: "'c \<Rightarrow> status"
  getEnginePower :: "'c \<Rightarrow> jsnum"
  big_to_string :: "rat \<Rightarrow> string"

text \<open>
  The calls main.js makes into the controller, the renderer, the camera, the DOM and the
  frame scheduler, in the order it makes them.
\<close>

datatype call =
    CtlNew config
  | CtlSetTransform pose
  | CtlUpdate jsnum
  | CtlGetStatus
  | CtlGetEnginePower
  | SetInnerHTML string
  | UpdateProjectionMatrix
  | RendererSetPixelRatio jsnum
  | RendererSetSize jsnum jsnum
  | Render
  | RequestAnimationFrame
  | AddEventListener string

fun is_update :: "call \<Rightarrow> bool" where
  "is_update (CtlUpdate _) = True"
| "is_update _ = False"

text \<open>
  The state main.js works on. \<open>hudEl\<close> is the result of \<open>document.getElementById('hud')\<close>:
  \<open>None\<close> for null, otherwise the element's \<open>innerHTML\<close>. \<open>camera_proj\<close> is the aspect
  ratio the camera's projection matrix was last computed from. \<open>scene\<close> lists the objects
  added to the scene, by the names main.js gives them. \<open>pending_frames\<close> counts the
  callbacks registered with \<open>requestAnimationFrame\<close> that have not run yet.
\<close>

record 'c world =
  ctl :: 'c
  hudEl :: "string option"
  camera_aspect :: jsnum
  camera_proj :: jsnum
  pixel_ratio :: jsnum
  renderer_size :: "jsnum \<times> jsnum"
  scene :: "string list"
  pending_frames :: nat
  calls :: "call list"

section \<open>main.js\<close>

text \<open>\<open>THREE.MathUtils.degToRad\<close>: the degrees times the constant \<open>Math.PI / 180\<close>.\<close>

definition degToRad :: "jsnum \<Rightarrow> jsnum" where
  "degToRad d = js_mul d (js_div math_PI (lit 180))"

definition controller_config :: config where
  "controller_config =
     \<lparr> maxSpeed = lit 120,
       accelResponse = lit (22 / 10),
       drag = lit (15 / 1000),
       pitchLimit = degToRad (lit 45),
       bankLimit = degToRad (lit 60),
       pitchCmdRateDeg = lit 60,
       bankCmdRateDeg = lit 90,
       pitchResponse = lit 5,
       bankResponse = lit 6,
       pitchCentering = lit 1,
       bankCentering = lit (15 / 10),
       turnRateGain = lit (13 / 10),
       yawTaxiRate = js_mul math_PI (lit (14 / 10)),
       stallSpeed = lit 12,
       ctrlVRange = lit 25,
       minY = lit 2 \<rparr>"

text \<open>The pose of lines 103 to 107, applied when the script starts.\<close>

definition initial_pose :: pose where
  "initial_pose =
     \<lparr> position = \<lparr> vx = lit 0, vy = lit 2, vz = lit 0 \<rparr>,
       euler = \<lparr> ex = lit 0, ey = lit 0, ez = lit 0, order = ''YXZ'' \<rparr>,
       throttle = lit 0 \<rparr>"

text \<open>The pose of lines 130 to 134, applied by the key R.\<close>

definition reset_pose :: pose where
  "reset_pose =
     \<lparr> position = \<lparr> vx = lit 0, vy = lit 2, vz = lit 0 \<rparr>,
       euler = \<lparr> ex = lit 0, ey = lit 0, ez = lit 0, order = ''YXZ'' \<rparr>,
       throttle = lit 0 \<rparr>"

text \<open>
  The script up to the call of \<open>animate\<close>. Its inputs are \<open>window.innerWidth\<close>,
  \<open>window.innerHeight\<close>, \<open>window.devicePixelRatio\<close> and the element with id \<open>hud\<close>.
\<close>

definition startup :: "'c env \<Rightarrow> jsnum \<Rightarrow> jsnum \<Rightarrow> jsnum \<Rightarrow> string option \<Rightarrow> 'c world" where
  "startup env innerWidth innerHeight devicePixelRatio hud =
     \<lparr> ctl = setTransform env initial_pose (construct env controller_config),
       hudEl = hud,
       camera_aspect = js_div innerWidth innerHeight,
       camera_proj = js_div innerWidth innerHeight,
       pixel_ratio = math_min devicePixelRatio (lit 2),
       renderer_size = (innerWidth, innerHeight),
       scene = [''amb'', ''dir'', ''grid'', ''runway'', ''plane''],
       pending_frames = 0,
       calls =
         [RendererSetPixelRatio (math_min devicePixelRatio (lit 2)),
          RendererSetSize innerWidth innerHeight,
          CtlNew controller_config,
          CtlSetTransform initial_pose,
          AddEventListener ''resize'',
          AddEventListener ''keydown''] \<rparr>"

text \<open>\<open>updateHUD\<close>, lines 111 to 118. The degree sign is the code unit B0.\<close>

definition updateHUD :: "'c env \<Rightarrow> 'c world \<Rightarrow> 'c world" where
  "updateHUD env w =
     (case hudEl w of
        None \<Rightarrow> w
      | Some _ \<Rightarrow>
          (let s = getStatus env (ctl w);
               html =
                 (''Vel: '' @ toFixed (big_to_string env) 1 (speed s) @ '' u/s<br>'') @
                 (''Throttle: '' @
                    int_to_string (to_int32 (js_mul (getEnginePower env (ctl w)) (lit 100))) @
                    ''%<br>'') @
                 (''Pitch/Bank: '' @ toFixed (big_to_string env) 0 (pitchDeg s) @
                    [CHR 0xB0] @ '' / '' @
                    toFixed (big_to_string env) 0 (bankDeg s) @ [CHR 0xB0])
           in w\<lparr> hudEl := Some html,
                 calls := calls w @ [CtlGetStatus, CtlGetEnginePower, SetInnerHTML html] \<rparr>))"

text \<open>
  The HUD as the spec words it: three lines of text, the speed to one decimal, the
  throttle as a truncated percentage, the pitch and the bank in whole degrees, with a
  line break (the element \<open><br>\<close>) between two lines.
\<close>

fun join_br :: "string list \<Rightarrow> string" where
  "join_br [] = []"
| "join_br [l] = l"
| "join_br (l # ls) = l @ ''<br>'' @ join_br ls"

definition spec_hud_text :: "(rat \<Rightarrow> string) \<Rightarrow> status \<Rightarrow> jsnum \<Rightarrow> string" where
  "spec_hud_text big s enginePower =
     join_br
       [''Vel: '' @ toFixed big 1 (speed s) @ '' u/s'',
        ''Throttle: '' @ int_to_string (to_int32 (js_mul enginePower (lit 100))) @ ''%'',
        ''Pitch/Bank: '' @ toFixed big 0 (pitchDeg s) @ [CHR 0xB0] @ '' / '' @
          toFixed big 0 (bankDeg s) @ [CHR 0xB0]]"

text \<open>The resize listener, lines 121 to 125, at the window's new inner size.\<close>

definition on_resize :: "jsnum \<Rightarrow> jsnum \<Rightarrow> 'c world \<Rightarrow> 'c world" where
  "on_resize innerWidth innerHeight w =
     (let w1 = w\<lparr> camera_aspect := js_div innerWidth innerHeight \<rparr>;
          w2 = w1\<lparr> camera_proj := camera_aspect w1,
                   calls := calls w1 @ [UpdateProjectionMatrix] \<rparr>
      in w2\<lparr> renderer_size := (innerWidth, innerHeight),
             calls := calls w2 @ [RendererSetSize innerWidth innerHeight] \<rparr>)"

text \<open>The keydown listener, lines 128 to 136, at the event's \<open>code\<close>.\<close>

definition on_keydown :: "'c env \<Rightarrow> string \<Rightarrow> 'c world \<Rightarrow> 'c world" where
  "on_keydown env code w =
     (if code = ''KeyR''
      then w\<lparr> ctl := setTransform env reset_pose (ctl w),
              calls := calls w @ [CtlSetTransform reset_pose] \<rparr>
      else w)"

text \<open>The time step of a frame, line 141, from the value of \<open>clock.getDelta()\<close>.\<close>

definition frame_dt :: "jsnum \<Rightarrow> jsnum" where
  "frame_dt delta = math_min (lit (5 / 100)) delta"

text \<open>\<open>animate\<close>, lines 140 to 146, at the value \<open>clock.getDelta()\<close> returns.\<close>

definition animate :: "'c env \<Rightarrow> jsnum \<Rightarrow> 'c world \<Rightarrow> 'c world" where
  "animate env delta w =
     (let dt = frame_dt delta;
          w1 = w\<lparr> ctl := update env dt (ctl w), calls := calls w @ [CtlUpdate dt] \<rparr>;
          w2 = updateHUD env w1;
          w3 = w2\<lparr> calls := calls w2 @ [Render] \<rparr>
      in w3\<lparr> pending_frames := Suc (pending_frames w3),
             calls := calls w3 @ [RequestAnimationFrame] \<rparr>)"

text \<open>The whole script: the start-up, then the first call of \<open>animate\<close> (line 147).\<close>

definition main :: "'c env \<Rightarrow> jsnum \<Rightarrow> jsnum \<Rightarrow> jsnum \<Rightarrow> string option \<Rightarrow> jsnum \<Rightarrow> 'c world" where
  "main env innerWidth innerHeight devicePixelRatio hud delta =
     animate env delta (startup env innerWidth innerHeight devicePixelRatio hud)"

text \<open>
  What the browser delivers after the script has run: a resize with the new inner size,
  a keydown with its code, or a display refresh, which runs a pending frame callback
  with the clock's delta.
\<close>

datatype browser_event = EvResize jsnum jsnum | EvKeyDown string | EvFrame jsnum

fun is_frame :: "browser_event \<Rightarrow> bool" where
  "is_frame (EvFrame _) = True"
| "is_frame _ = False"

fun dispatch :: "'c env \<Rightarrow> 'c world \<Rightarrow> browser_event \<Rightarrow> 'c world" where
  "dispatch env w (EvResize iw ih) = on_resize iw ih w"
| "dispatch env w (EvKeyDown code) = on_keydown env code w"
| "dispatch env w (EvFrame delta) =
     (if pending_frames w = 0 then w
      else animate env delta (w\<lparr> pending_frames := pending_frames w - 1 \<rparr>))"

definition run :: "'c env \<Rightarrow> 'c world \<Rightarrow> browser_event list \<Rightarrow> 'c world" where
  "run env w evs = foldl (dispatch env) w evs"

text \<open>The clock deltas of the display refreshes among the events, in their order.\<close>

fun frame_deltas :: "browser_event list \<Rightarrow> jsnum list" where
  "frame_deltas [] = []"
| "frame_deltas (EvFrame delta # evs) = delta # frame_deltas evs"
| "frame_deltas (_ # evs) = frame_deltas evs"

section \<open>The airplane controller\<close>

text \<open>
  Modelled from the spec: the class \<open>AirplaneController\<close> of airplaneController.js, which
  main.js imports and which is not among the sources. The spec gives its contract only.
  The controller owns the plane transform: a position, the orientation as pitch, bank and
  heading, and the throttle; it has a speed, and the configuration it was constructed
  with, which never changes.
\<close>

record flight =
  pos :: vector3
  pitch :: jsnum
  bank :: jsnum
  heading :: jsnum
  thr :: jsnum
  spd :: jsnum

record controller =
  cfg :: config
  plane :: flight

text \<open>
  Modelled from the spec: the constructor of \<open>AirplaneController\<close>. The plane is a new
  \<open>THREE.Group\<close>, at the origin and not rotated; the configuration is stored.
\<close>

definition airplane_new :: "config \<Rightarrow> controller" where
  "airplane_new c =
     \<lparr> cfg = c,
       plane = \<lparr> pos = \<lparr> vx = Fin 0, vy = Fin 0, vz = Fin 0 \<rparr>,
                 pitch = Fin 0, bank = Fin 0, heading = Fin 0,
                 thr = Fin 0, spd = Fin 0 \<rparr> \<rparr>"

text \<open>
  Modelled from the spec: \<open>AirplaneController.setTransform\<close>, which "resets state
  instantaneously" to the given position, Euler angles and throttle. In the order YXZ
  the angle about Y is the heading, the one about X the pitch, the one about Z the bank.
\<close>

definition airplane_setTransform :: "pose \<Rightarrow> controller \<Rightarrow> controller" where
  "airplane_setTransform p c =
     c\<lparr> plane := (plane c)\<lparr> pos := position p,
                              pitch := ex (euler p),
                              heading := ey (euler p),
                              bank := ez (euler p),
                              thr := throttle p \<rparr> \<rparr>"

text \<open>
  Modelled from the spec: the ground-height clamp of \<open>AirplaneController.update\<close>, which
  "enforces minimum height": a height that is not at least \<open>minY\<close> becomes \<open>minY\<close>.
\<close>

definition enforce_min_height :: "config \<Rightarrow> flight \<Rightarrow> flight" where
  "enforce_min_height c f =
     (if js_le (minY c) (vy (pos f)) then f
      else f\<lparr> pos := (pos f)\<lparr> vy := minY c \<rparr> \<rparr>)"

text \<open>
  Modelled from the spec: \<open>AirplaneController.update\<close>, which "advances simulation by
  \<open>dt\<close> seconds", "enforces minimum height, and recomputes position/orientation". The spec
  gives no detail of the integration of throttle, pitch, bank and speed: it is the
  parameter \<open>integrate\<close>, any function of the configuration, the time step and the flight
  state. The clamp is applied to what it returns.
\<close>

definition airplane_update ::
  "(config \<Rightarrow> jsnum \<Rightarrow> flight \<Rightarrow> flight) \<Rightarrow> jsnum \<Rightarrow> controller \<Rightarrow> controller" where
  "airplane_update integrate dt c =
     c\<lparr> plane := enforce_min_height (cfg c) (integrate (cfg c) dt (plane c)) \<rparr>"

text \<open>\<open>THREE.MathUtils.radToDeg\<close>: the radians times the constant \<open>180 / Math.PI\<close>.\<close>

definition radToDeg :: "jsnum \<Rightarrow> jsnum" where
  "radToDeg r = js_mul r (js_div (lit 180) math_PI)"

text \<open>
  Modelled from the spec: \<open>AirplaneController.getStatus\<close>, which "returns current speed
  and orientation angles for display", the angles in degrees.
\<close>

definition airplane_getStatus :: "controller \<Rightarrow> status" where
  "airplane_getStatus c =
     \<lparr> speed = spd (plane c),
       pitchDeg = radToDeg (pitch (plane c)),
       bankDeg = radToDeg (bank (plane c)) \<rparr>"

text \<open>
  Modelled from the spec: \<open>AirplaneController.getEnginePower\<close>, which "returns current
  throttle fraction".
\<close>

definition airplane_getEnginePower :: "controller \<Rightarrow> jsnum" where
  "airplane_getEnginePower c = thr (plane c)"

text \<open>The controller of the spec as what main.js is linked against.\<close>

definition spec_env ::
  "(config \<Rightarrow> jsnum \<Rightarrow> flight \<Rightarrow> flight) \<Rightarrow> (rat \<Rightarrow> string) \<Rightarrow> controller env" where
  "spec_env integrate big =
     \<lparr> construct = airplane_new,
       setTransform = airplane_setTransform,
       update = airplane_update integrate,
       getStatus = airplane_getStatus,
       getEnginePower = airplane_getEnginePower,
       big_to_string = big \<rparr>"

text \<open>
  The state of the whole program linked against the controller of the spec has the plane on
  or above the ground when the controller still has the configuration of main.js and the
  plane's height is at least 2.
\<close>

definition grounded :: "controller world \<Rightarrow> bool" where
  "grounded w = (cfg (ctl w) = controller_config \<and> js_le (Fin 2) (vy (pos (plane (ctl w)))))"

section \<open>Facts about the numbers\<close>

subsection \<open>Binary exponents\<close>

lemma bitlen_bounds:
  "0 < n \<Longrightarrow> 1 \<le> bitlen n \<and> 2 ^ nat (bitlen n - 1) \<le> n \<and> n < 2 ^ nat (bitlen n)"
proof (induction n rule: bitlen.induct)
  case (1 n)
  show ?case
  proof (cases "n = 1")
    case True
    then show ?thesis by (simp add: bitlen.simps [of 1] bitlen.simps [of 0])
  next
    case False
    with "1.prems" have h: "0 < n div 2" by simp
    from "1.prems" have nle: "\<not> n \<le> 0" by simp
    have ih: "1 \<le> bitlen (n div 2) \<and> 2 ^ nat (bitlen (n div 2) - 1) \<le> n div 2 \<and>
        n div 2 < 2 ^ nat (bitlen (n div 2))"
      using "1.IH" [OF nle h] .
    have b: "bitlen n = 1 + bitlen (n div 2)"
      using nle by (simp add: bitlen.simps [of n])
    have e: "nat (bitlen n - 1) = Suc (nat (bitlen (n div 2) - 1))"
      using ih b by arith
    have e2: "nat (bitlen n) = Suc (nat (bitlen (n div 2)))"
      using ih b by arith
    have lo: "2 * 2 ^ nat (bitlen (n div 2) - 1) \<le> n"
      using ih by linarith
    have hi: "n < 2 * 2 ^ nat (bitlen (n div 2))"
      using ih by linarith
    show ?thesis using b e e2 lo hi ih by simp
  qed
qed

lemma two_powi_pos: "0 < (2::rat) powi k"
  by (simp add: zero_less_power_int)

lemma ilog2_bounds:
  assumes "0 < q"
  shows "2 powi ilog2 q \<le> q \<and> q < 2 powi (ilog2 q + 1)"
proof -
  obtain a b where ab: "quotient_of q = (a, b)" by (cases "quotient_of q")
  have bpos: "0 < b" using ab by (rule quotient_of_denom_pos)
  have q: "q = of_int a / of_int b" using ab by (rule quotient_of_div)
  have apos: "0 < a"
    using assms bpos q by (simp add: zero_less_divide_iff)
  let ?la = "bitlen a" and ?lb = "bitlen b"
  let ?k = "?la - ?lb"
  from bitlen_bounds [OF apos] have la: "1 \<le> ?la" "2 ^ nat (?la - 1) \<le> a" "a < 2 ^ nat ?la"
    by simp_all
  from bitlen_bounds [OF bpos] have lb: "1 \<le> ?lb" "2 ^ nat (?lb - 1) \<le> b" "b < 2 ^ nat ?lb"
    by simp_all
  have a_lo: "(2::rat) powi (?la - 1) \<le> of_int a"
  proof -
    have "(of_int (2 ^ nat (?la - 1)) :: rat) \<le> of_int a" using la(2) by (simp only: of_int_le_iff)
    then show ?thesis using la(1) by (simp add: power_int_def)
  qed
  have a_hi: "of_int a < (2::rat) powi ?la"
  proof -
    have "(of_int a :: rat) < of_int (2 ^ nat ?la)" using la(3) by (simp only: of_int_less_iff)
    then show ?thesis using la(1) by (simp add: power_int_def)
  qed
  have b_lo: "(2::rat) powi (?lb - 1) \<le> of_int b"
  proof -
    have "(of_int (2 ^ nat (?lb - 1)) :: rat) \<le> of_int b" using lb(2) by (simp only: of_int_le_iff)
    then show ?thesis using lb(1) by (simp add: power_int_def)
  qed
  have b_hi: "of_int b < (2::rat) powi ?lb"
  proof -
    have "(of_int b :: rat) < of_int (2 ^ nat ?lb)" using lb(3) by (simp only: of_int_less_iff)
    then show ?thesis using lb(1) by (simp add: power_int_def)
  qed
  have bq: "(0::rat) < of_int b" using bpos by simp
  have lower: "2 powi (?k - 1) \<le> q"
  proof -
    have "2 powi (?k - 1) * of_int b \<le> 2 powi (?k - 1) * (2::rat) powi ?lb"
      using b_hi two_powi_pos [of "?k - 1"] by (intro mult_left_mono) simp_all
    also have "\<dots> = 2 powi (?la - 1)"
      by (simp flip: power_int_add)
    also have "\<dots> \<le> of_int a" by (rule a_lo)
    finally show ?thesis using bq by (simp add: q pos_le_divide_eq)
  qed
  have upper: "q < 2 powi (?k + 1)"
  proof -
    have "of_int a < (2::rat) powi ?la" by (rule a_hi)
    also have "\<dots> = 2 powi (?k + 1) * 2 powi (?lb - 1)"
      by (simp flip: power_int_add)
    also have "\<dots> \<le> 2 powi (?k + 1) * of_int b"
      using b_lo two_powi_pos [of "?k + 1"] by (intro mult_left_mono) simp_all
    finally show ?thesis using bq by (simp add: q pos_divide_less_eq)
  qed
  show ?thesis
  proof (cases "2 powi ?k \<le> q")
    case True
    then have "ilog2 q = ?k" by (simp add: ilog2_def ab)
    with True upper show ?thesis by simp
  next
    case False
    then have "ilog2 q = ?k - 1" by (simp add: ilog2_def ab)
    with False lower show ?thesis by simp
  qed
qed

lemma ilog2_less: "0 < q \<Longrightarrow> q < 2 powi e \<Longrightarrow> ilog2 q < e"
proof (rule ccontr)
  assume q: "0 < q" "q < 2 powi e" and n: "\<not> ilog2 q < e"
  then have "(2::rat) powi e \<le> 2 powi ilog2 q"
    by (intro power_int_increasing) simp_all
  with ilog2_bounds [OF q(1)] q(2) show False by simp
qed

lemma ilog2_ge: "0 < q \<Longrightarrow> 2 powi e \<le> q \<Longrightarrow> e \<le> ilog2 q"
proof (rule ccontr)
  assume q: "0 < q" "2 powi e \<le> q" and n: "\<not> e \<le> ilog2 q"
  then have "(2::rat) powi (ilog2 q + 1) \<le> 2 powi e"
    by (intro power_int_increasing) simp_all
  with ilog2_bounds [OF q(1)] q(2) show False by simp
qed

lemma ilog2_eq: "2 powi e \<le> q \<Longrightarrow> q < 2 powi (e + 1) \<Longrightarrow> ilog2 q = e"
proof -
  assume a: "2 powi e \<le> q" "q < 2 powi (e + 1)"
  have "0 < q" using a(1) two_powi_pos [of e] by linarith
  then show ?thesis using ilog2_less [of q "e + 1"] ilog2_ge [of q e] a by simp
qed

subsection \<open>Rounding\<close>

lemma round_half_even_bounds:
  "\<lfloor>t\<rfloor> \<le> round_half_even t \<and> round_half_even t \<le> \<lfloor>t + 1 / 2\<rfloor>"
proof -
  have f: "of_int \<lfloor>t\<rfloor> \<le> t" "t < of_int \<lfloor>t\<rfloor> + 1" by linarith+
  have up: "\<lfloor>t\<rfloor> + 1 \<le> \<lfloor>t + 1 / 2\<rfloor>" if "1 / 2 \<le> t - of_int \<lfloor>t\<rfloor>"
  proof -
    have "of_int (\<lfloor>t\<rfloor> + 1) \<le> t + 1 / 2" using that by simp
    then show ?thesis by (simp only: le_floor_iff)
  qed
  have lo: "\<lfloor>t\<rfloor> \<le> \<lfloor>t + 1 / 2\<rfloor>" by (intro floor_mono) simp
  show ?thesis
    using up lo by (auto simp: round_half_even_def Let_def)
qed

lemma round_half_even_of_int: "round_half_even (of_int n) = n"
  by (simp add: round_half_even_def)

lemma round_half_even_le: "t \<le> of_int N \<Longrightarrow> round_half_even t \<le> N"
proof -
  assume t: "t \<le> of_int N"
  show ?thesis
  proof (cases "t = of_int N")
    case True
    then show ?thesis by (simp add: round_half_even_of_int)
  next
    case False
    with t have lt: "t < of_int N" by simp
    then have fl: "\<lfloor>t\<rfloor> < N" by (simp add: floor_less_iff)
    have "round_half_even t \<le> \<lfloor>t\<rfloor> + 1"
      by (auto simp: round_half_even_def Let_def)
    with fl show ?thesis by simp
  qed
qed

lemma round_half_even_nonneg: "0 \<le> t \<Longrightarrow> 0 \<le> round_half_even t"
proof -
  assume "0 \<le> t"
  then have "0 \<le> \<lfloor>t\<rfloor>" by simp
  with round_half_even_bounds [of t] show ?thesis by linarith
qed

lemma round_double_pos:
  assumes "0 < y"
    and "of_int (round_half_even (y / 2 powi ulp_exp y)) * (2::rat) powi ulp_exp y < 2 ^ 1024"
  shows "round_double y = Fin (of_int (round_half_even (y / 2 powi ulp_exp y)) * 2 powi ulp_exp y)"
    and "0 \<le> of_int (round_half_even (y / 2 powi ulp_exp y)) * (2::rat) powi ulp_exp y"
proof -
  let ?u = "(2::rat) powi ulp_exp y"
  let ?r = "of_int (round_half_even (y / ?u)) * ?u"
  have u: "0 < ?u" by (rule two_powi_pos)
  have "0 \<le> y / ?u" using assms(1) u by simp
  then have "0 \<le> round_half_even (y / ?u)" by (rule round_half_even_nonneg)
  then show nn: "0 \<le> ?r" using u by simp
  have "\<not> ?r \<le> - (2 ^ 1024)" using nn by (simp add: not_le)
  then show "round_double y = Fin ?r"
    using assms by (simp add: round_double_def Let_def not_le)
qed

lemma rounded_le:
  assumes "0 < y" and "y \<le> of_int M * 2 powi g" and "ulp_exp y \<le> g"
  shows "of_int (round_half_even (y / 2 powi ulp_exp y)) * (2::rat) powi ulp_exp y
    \<le> of_int M * 2 powi g"
proof -
  let ?u = "(2::rat) powi ulp_exp y"
  have u: "0 < ?u" by (rule two_powi_pos)
  define d where "d = nat (g - ulp_exp y)"
  have g: "(2::rat) powi g = 2 ^ d * ?u"
  proof -
    have "g = int d + ulp_exp y" using assms(3) by (simp add: d_def)
    then have "(2::rat) powi g = 2 powi (int d) * ?u" by (simp add: power_int_add)
    then show ?thesis by simp
  qed
  from assms(2) have "y \<le> (of_int M * 2 ^ d) * ?u" by (simp add: g mult.assoc)
  then have "y / ?u \<le> of_int M * 2 ^ d" using u by (simp add: pos_divide_le_eq)
  then have "y / ?u \<le> of_int (M * 2 ^ d)" by simp
  then have "round_half_even (y / ?u) \<le> M * 2 ^ d" by (rule round_half_even_le)
  then have "(of_int (round_half_even (y / ?u)) :: rat) \<le> of_int (M * 2 ^ d)"
    by (simp only: of_int_le_iff)
  then have "of_int (round_half_even (y / ?u)) * ?u \<le> of_int (M * 2 ^ d) * ?u"
    using u by (intro mult_right_mono) simp_all
  then show ?thesis by (simp add: g mult.assoc)
qed

lemma ulp_exp_upper: "0 < y \<Longrightarrow> y < 2 powi e \<Longrightarrow> - 1022 < e \<Longrightarrow> ulp_exp y \<le> e - 53"
  using ilog2_less [of y e] by (simp add: ulp_exp_def)

lemma ulp_exp_eq: "2 powi e \<le> y \<Longrightarrow> y < 2 powi (e + 1) \<Longrightarrow> - 1022 \<le> e \<Longrightarrow> ulp_exp y = e - 52"
proof -
  assume a: "2 powi e \<le> y" "y < 2 powi (e + 1)" "- 1022 \<le> e"
  have "0 < y" using a(1) two_powi_pos [of e] by linarith
  then have "\<bar>y\<bar> = y" by simp
  then show ?thesis using ilog2_eq [OF a(1) a(2)] a(3) by (simp add: ulp_exp_def)
qed

lemma double_below_one:
  assumes "is_double q" and "1 / 2 \<le> q" and "q < 1"
  shows "q \<le> 1 - 1 / 2 ^ 53"
proof -
  have u: "ulp_exp q = - 53"
    using ulp_exp_eq [of "- 1" q] assms(2,3) by (simp add: power_int_minus)
  have p: "(2::rat) powi (- 53) = 1 / 2 ^ 53" by (simp add: power_int_minus_divide)
  from assms(1,2) have "of_int \<lfloor>q / 2 powi ulp_exp q\<rfloor> = q / 2 powi ulp_exp q"
    by (auto simp: is_double_def)
  then have i: "of_int \<lfloor>q * 2 ^ 53\<rfloor> = q * 2 ^ 53" by (simp add: u p)
  have "q * 2 ^ 53 < 2 ^ 53" using assms(3) by simp
  then have "q * 2 ^ 53 < of_int (2 ^ 53)" by simp
  then have "\<lfloor>q * 2 ^ 53\<rfloor> < 2 ^ 53" by (simp only: floor_less_iff)
  then have "\<lfloor>q * 2 ^ 53\<rfloor> \<le> 2 ^ 53 - 1" by simp
  then have "(of_int \<lfloor>q * 2 ^ 53\<rfloor> :: rat) \<le> of_int (2 ^ 53 - 1)" by (simp only: of_int_le_iff)
  then have "q * 2 ^ 53 \<le> of_int (2 ^ 53 - 1)" by (simp only: i)
  then have "q * 2 ^ 53 \<le> 2 ^ 53 - 1" by simp
  then have "q \<le> (2 ^ 53 - 1) / 2 ^ 53" by (simp add: pos_le_divide_eq)
  then show ?thesis by (simp add: diff_divide_distrib)
qed

lemma to_int32_small: "0 \<le> r \<Longrightarrow> r < 2 ^ 31 \<Longrightarrow> to_int32 (Fin r) = \<lfloor>r\<rfloor>"
proof -
  assume a: "0 \<le> r" "r < 2 ^ 31"
  have f0: "0 \<le> \<lfloor>r\<rfloor>" using a(1) by simp
  have "r < of_int (2 ^ 31)" using a(2) by simp
  then have f1: "\<lfloor>r\<rfloor> < 2 ^ 31" by (simp only: floor_less_iff)
  have m: "\<lfloor>r\<rfloor> mod 2 ^ 32 = \<lfloor>r\<rfloor>" using f0 f1 by simp
  show ?thesis using a(1) f1 by (simp add: to_int32_def Let_def m)
qed

lemma percent_rounding:
  assumes "is_double q" and "0 < q" and "q \<le> 1"
  shows "\<exists>r. round_double (q * 100) = Fin r \<and> 0 \<le> r \<and> r \<le> 100 \<and> (r = 100 \<longleftrightarrow> q = 1)"
proof -
  let ?y = "q * 100"
  let ?u = "(2::rat) powi ulp_exp ?y"
  let ?r = "of_int (round_half_even (?y / ?u)) * ?u"
  have y: "0 < ?y" "?y \<le> 100" using assms by simp_all
  have y128: "?y < 2 powi 7" using y(2) by simp
  have ue: "ulp_exp ?y \<le> - 46" using ulp_exp_upper [OF y(1) y128] by simp
  have le100: "?r \<le> 100"
    using rounded_le [of ?y 100 0] y ue by simp
  then have small: "?r < 2 ^ 1024" by (rule le_less_trans) simp
  note rd = round_double_pos [OF y(1) small]
  have top: "?r = 100" if "q = 1"
  proof -
    have yy: "?y = 100" using that by simp
    have "ulp_exp (100::rat) = 6 - 52" by (rule ulp_exp_eq) simp_all
    then have u: "ulp_exp (100::rat) = - 46" by simp
    have "(100::rat) / 2 powi ulp_exp 100 = of_int (100 * 2 ^ 46)"
      by (simp add: u power_int_minus_divide)
    then have "round_half_even ((100::rat) / 2 powi ulp_exp 100) = 100 * 2 ^ 46"
      by (simp only: round_half_even_of_int)
    then show ?thesis by (simp add: that u power_int_minus_divide)
  qed
  have below: "?r < 100" if "q \<noteq> 1"
  proof (cases "?y < 64")
    case True
    then have "?y < 2 powi 6" by simp
    from ulp_exp_upper [OF y(1) this] have "ulp_exp ?y \<le> 0" by simp
    with rounded_le [of ?y 64 0] y(1) True have "?r \<le> 64" by simp
    then show ?thesis by simp
  next
    case False
    then have ge: "64 \<le> ?y" by simp
    then have "1 / 2 \<le> q" by simp
    moreover have "q < 1" using that assms(3) by simp
    ultimately have q: "q \<le> 1 - 1 / 2 ^ 53" using double_below_one [OF assms(1)] by simp
    have "ulp_exp ?y = 6 - 52" using ge y128 by (intro ulp_exp_eq) simp_all
    then have u: "ulp_exp ?y = - 46" by simp
    have p: "(2::rat) powi (- 46) = 1 / 2 ^ 46" by (simp add: power_int_minus_divide)
    have "?y / ?u + 1 / 2 = q * 100 * 2 ^ 46 + 1 / 2" by (simp add: u p)
    also have "\<dots> \<le> (1 - 1 / 2 ^ 53) * 100 * 2 ^ 46 + 1 / 2" using q by simp
    also have "\<dots> < of_int (100 * 2 ^ 46)" by simp
    finally have "\<lfloor>?y / ?u + 1 / 2\<rfloor> < 100 * 2 ^ 46" by (simp only: floor_less_iff)
    with round_half_even_bounds [of "?y / ?u"]
    have "round_half_even (?y / ?u) \<le> 100 * 2 ^ 46 - 1" by linarith
    then have "(of_int (round_half_even (?y / ?u)) :: rat) \<le> of_int (100 * 2 ^ 46 - 1)"
      by (simp only: of_int_le_iff)
    then have "?r \<le> of_int (100 * 2 ^ 46 - 1) * ?u"
      using two_powi_pos [of "ulp_exp ?y"] by (intro mult_right_mono) simp_all
    also have "\<dots> < 100" by (simp add: u p)
    finally show ?thesis .
  qed
  have "?r = 100 \<longleftrightarrow> q = 1"
  proof
    assume e: "?r = 100"
    show "q = 1"
    proof (rule ccontr)
      assume "q \<noteq> 1"
      from below [OF this] e show False by simp
    qed
  next
    assume "q = 1"
    then show "?r = 100" by (rule top)
  qed
  with rd le100 show ?thesis by blast
qed

subsection \<open>Evaluating the rounding at a given number\<close>

lemma floor_rat_numeral: "\<lfloor>(numeral a / numeral b :: rat)\<rfloor> = numeral a div numeral b"
  using floor_divide_of_int_eq [of "numeral a" "numeral b", where ?'a = rat] by simp

lemma round_double_eval:
  assumes "2 powi e \<le> q" and "q < 2 powi (e + 1)" and "- 1022 \<le> e" and "e < 1023"
    and "round_half_even (q / 2 powi (e - 52)) = n"
  shows "round_double q = Fin (of_int n * 2 powi (e - 52))"
proof -
  have qpos: "0 < q" using assms(1) two_powi_pos [of e] by linarith
  have u: "ulp_exp q = e - 52" using assms(1,2,3) by (rule ulp_exp_eq)
  let ?r = "of_int (round_half_even (q / 2 powi ulp_exp q)) * (2::rat) powi ulp_exp q"
  have "?r \<le> of_int 1 * 2 powi (e + 1)"
    using qpos assms(2) u by (intro rounded_le) simp_all
  also have "\<dots> = 2 powi (e + 1)" by simp
  also have "\<dots> \<le> 2 powi 1023"
    using assms(4) by (intro power_int_increasing) simp_all
  also have "\<dots> < 2 ^ 1024" by simp
  finally have "?r < 2 ^ 1024" .
  from round_double_pos(1) [OF qpos this] show ?thesis
    using assms(5) by (simp add: u)
qed

lemma lit_2: "lit 2 = Fin 2"
  unfolding lit_def
  using round_double_eval [of 1 2 "2 * 2 ^ 51"]
  by (simp add: round_half_even_def Let_def floor_rat_numeral power_int_minus_divide)

lemma lit_100: "lit 100 = Fin 100"
  unfolding lit_def
  using round_double_eval [of 6 100 "100 * 2 ^ 46"]
  by (simp add: round_half_even_def Let_def floor_rat_numeral power_int_minus_divide)

lemma lit_005n: "lit (1 / 20) = Fin (3602879701896397 / 2 ^ 56)"
  unfolding lit_def
  using round_double_eval [of "- 5" "1 / 20" "7205759403792794"]
  by (simp add: round_half_even_def Let_def floor_rat_numeral power_int_minus_divide)

lemma lit_0: "lit 0 = Fin 0"
  by (simp add: lit_def round_double_def)

lemma percent_half: "to_int32 (js_mul (Fin (1 / 2)) (lit 100)) = 50"
proof -
  have "round_double 50 = Fin 50"
    using round_double_eval [of 5 50 "50 * 2 ^ 47"]
    by (simp add: round_half_even_def Let_def floor_rat_numeral power_int_minus_divide)
  then show ?thesis
    by (simp add: js_mul_def lit_100 to_int32_def)
qed

lemma is_double_below_one: "is_double (1 - 1 / 2 ^ 53)"
proof -
  have "ulp_exp (1 - 1 / 2 ^ 53 :: rat) = - 1 - 52"
    by (rule ulp_exp_eq) (simp_all add: power_int_minus_divide)
  then show ?thesis
    by (simp add: is_double_def power_int_minus_divide)
qed

lemma percent_below_one: "to_int32 (js_mul (Fin (1 - 1 / 2 ^ 53)) (lit 100)) = 99"
proof -
  have "round_double ((1 - 1 / 2 ^ 53) * 100) = Fin (of_int (100 * 2 ^ 46 - 1) * 2 powi (6 - 52))"
    by (rule round_double_eval) (simp_all add: round_half_even_def Let_def floor_rat_numeral power_int_minus_divide)
  then show ?thesis
    by (simp add: js_mul_def lit_100 to_int32_def power_int_minus_divide floor_rat_numeral)
qed

subsection \<open>Division\<close>

lemma round_half_even_near: "\<bar>of_int (round_half_even t) - t\<bar> \<le> 1 / 2"
proof -
  have f: "of_int \<lfloor>t\<rfloor> \<le> t" "t < of_int \<lfloor>t\<rfloor> + 1" by linarith+
  show ?thesis
    using f by (auto simp: round_half_even_def Let_def abs_le_iff)
qed

lemma round_double_exact:
  assumes "is_double q" and "0 < q"
  shows "round_double q = Fin q"
proof -
  let ?u = "(2::rat) powi ulp_exp q"
  have u: "0 < ?u" by (rule two_powi_pos)
  from assms have lt: "q < 2 ^ 1024" and i: "of_int \<lfloor>q / ?u\<rfloor> = q / ?u"
    by (auto simp: is_double_def)
  have "round_half_even (q / ?u) = \<lfloor>q / ?u\<rfloor>"
    using round_half_even_of_int [of "\<lfloor>q / ?u\<rfloor>"] by (simp only: i)
  then have r: "of_int (round_half_even (q / ?u)) * ?u = q"
    using u by (simp add: i)
  from round_double_pos(1) [OF assms(2)] lt show ?thesis by (simp only: r)
qed

lemma round_double_near:
  assumes "0 < q" and "q < 2 powi 1023"
  shows "\<exists>r. round_double q = Fin r \<and> \<bar>r - q\<bar> \<le> 2 powi ulp_exp q / 2"
proof -
  let ?u = "(2::rat) powi ulp_exp q"
  let ?r = "of_int (round_half_even (q / ?u)) * ?u"
  have u: "0 < ?u" by (rule two_powi_pos)
  have ue: "ulp_exp q \<le> 1023" using ulp_exp_upper [OF assms] by simp
  have "?r \<le> of_int 1 * 2 powi 1023"
    using assms ue by (intro rounded_le) simp_all
  also have "\<dots> < 2 ^ 1024" by simp
  finally have small: "?r < 2 ^ 1024" .
  have "\<bar>?r - q\<bar> = \<bar>of_int (round_half_even (q / ?u)) - q / ?u\<bar> * ?u"
  proof -
    have "?r - q = (of_int (round_half_even (q / ?u)) - q / ?u) * ?u"
      using u by (simp add: left_diff_distrib)
    then show ?thesis using u by (simp add: abs_mult)
  qed
  also have "\<dots> \<le> 1 / 2 * ?u"
    using round_half_even_near [of "q / ?u"] u by (intro mult_right_mono) simp_all
  finally have "\<bar>?r - q\<bar> \<le> ?u / 2" by simp
  with round_double_pos(1) [OF assms(1) small] show ?thesis by blast
qed

lemma js_div_pos: "0 < a \<Longrightarrow> 0 < b \<Longrightarrow> js_div (Fin a) (Fin b) = round_double (a / b)"
  by (simp add: js_div_def)

lemma aspect_1024_768: "js_div (Fin 1024) (Fin 768) = Fin (6004799503160661 / 2 ^ 52)"
proof -
  have "round_double (1024 / 768) = Fin (of_int 6004799503160661 * 2 powi (0 - 52))"
    by (rule round_double_eval)
      (simp_all add: round_half_even_def Let_def floor_rat_numeral power_int_minus_divide)
  then show ?thesis by (simp add: js_div_def power_int_minus_divide)
qed

lemma is_double_2: "is_double 2"
proof -
  have "ulp_exp (2::rat) = 1 - 52" by (rule ulp_exp_eq) simp_all
  then show ?thesis by (simp add: is_double_def power_int_minus_divide)
qed

subsection \<open>Comparisons and the minimum\<close>

lemma js_lt_irrefl: "\<not> js_lt a a"
  by (cases a) simp_all

lemma js_le_refl: "a \<noteq> NaN \<Longrightarrow> js_le a a"
  by (simp add: js_le_def js_lt_irrefl)

lemma math_min_le_left: "a \<noteq> NaN \<Longrightarrow> b \<noteq> NaN \<Longrightarrow> js_le (math_min a b) a"
  by (cases a; cases b) (auto simp: math_min_def min_step_def js_le_def)

lemma math_min_le_right: "a \<noteq> NaN \<Longrightarrow> b \<noteq> NaN \<Longrightarrow> js_le (math_min a b) b"
  by (cases a; cases b) (auto simp: math_min_def min_step_def js_le_def)

lemma math_min_not_gt_right: "\<not> js_lt b (math_min a b)"
  by (cases a; cases b) (auto simp: math_min_def min_step_def js_le_def)

section \<open>Facts about the functions of main.js\<close>

lemma updateHUD_ctl: "ctl (updateHUD env w) = ctl w"
  by (simp add: updateHUD_def Let_def split: option.split)

lemma updateHUD_pending: "pending_frames (updateHUD env w) = pending_frames w"
  by (simp add: updateHUD_def Let_def split: option.split)

lemma updateHUD_pixel_ratio: "pixel_ratio (updateHUD env w) = pixel_ratio w"
  by (simp add: updateHUD_def Let_def split: option.split)

lemma updateHUD_updates: "filter is_update (calls (updateHUD env w)) = filter is_update (calls w)"
  by (simp add: updateHUD_def Let_def split: option.split)

lemma updateHUD_text:
  "hudEl w = Some old \<Longrightarrow>
   hudEl (updateHUD env w) =
     Some (spec_hud_text (big_to_string env) (getStatus env (ctl w)) (getEnginePower env (ctl w)))"
  by (simp add: updateHUD_def Let_def spec_hud_text_def)

lemma animate_ctl: "ctl (animate env delta w) = update env (frame_dt delta) (ctl w)"
  by (simp add: animate_def Let_def updateHUD_ctl)

lemma animate_pending: "pending_frames (animate env delta w) = Suc (pending_frames w)"
  by (simp add: animate_def Let_def updateHUD_pending)

lemma animate_pixel_ratio: "pixel_ratio (animate env delta w) = pixel_ratio w"
  by (simp add: animate_def Let_def updateHUD_pixel_ratio)

lemma animate_updates:
  "filter is_update (calls (animate env delta w)) =
   filter is_update (calls w) @ [CtlUpdate (frame_dt delta)]"
  by (simp add: animate_def Let_def updateHUD_updates)

lemma animate_hudEl:
  "hudEl (animate env delta w) =
   hudEl (updateHUD env (w\<lparr> ctl := update env (frame_dt delta) (ctl w) \<rparr>))"
  by (simp add: animate_def Let_def updateHUD_def split: option.split)

lemma animate_calls:
  "calls (animate env delta w) =
   calls w @ [CtlUpdate (frame_dt delta)] @
     (case hudEl (animate env delta w) of None \<Rightarrow> []
      | Some html \<Rightarrow> [CtlGetStatus, CtlGetEnginePower, SetInnerHTML html]) @
     [Render, RequestAnimationFrame]"
  by (simp add: animate_def Let_def updateHUD_def split: option.split)

lemma on_resize_updates: "filter is_update (calls (on_resize iw ih w)) = filter is_update (calls w)"
  by (simp add: on_resize_def Let_def)

lemma on_keydown_updates: "filter is_update (calls (on_keydown env code w)) = filter is_update (calls w)"
  by (simp add: on_keydown_def)

lemma startup_updates: "filter is_update (calls (startup env iw ih dpr hud)) = []"
  by (simp add: startup_def)

lemma dispatch_pending:
  "pending_frames w = Suc 0 \<Longrightarrow> pending_frames (dispatch env w ev) = Suc 0"
  by (cases ev) (simp_all add: on_resize_def on_keydown_def Let_def animate_pending)

lemma dispatch_updates:
  "pending_frames w = Suc 0 \<Longrightarrow>
   length (filter is_update (calls (dispatch env w ev))) =
   length (filter is_update (calls w)) + (if is_frame ev then 1 else 0)"
  by (cases ev) (simp_all add: on_resize_updates on_keydown_updates animate_updates)

lemma run_pending_updates:
  "pending_frames w = Suc 0 \<Longrightarrow>
   pending_frames (run env w evs) = Suc 0 \<and>
   length (filter is_update (calls (run env w evs))) =
     length (filter is_update (calls w)) + length (filter is_frame evs)"
proof (induction evs arbitrary: w)
  case Nil
  then show ?case by (simp add: run_def)
next
  case (Cons ev evs)
  have p: "pending_frames (dispatch env w ev) = Suc 0"
    using Cons.prems by (rule dispatch_pending)
  have run_Cons: "run env w (ev # evs) = run env (dispatch env w ev) evs"
    by (simp add: run_def)
  show ?case
    using Cons.IH [OF p] dispatch_updates [OF Cons.prems, of env ev]
    by (simp add: run_Cons)
qed

lemma main_pending: "pending_frames (main env iw ih dpr hud d0) = Suc 0"
  by (simp add: main_def animate_pending startup_def)

lemma main_updates:
  "filter is_update (calls (main env iw ih dpr hud d0)) = [CtlUpdate (frame_dt d0)]"
  by (simp add: main_def animate_updates startup_updates)

lemma dispatch_update_calls:
  "pending_frames w = Suc 0 \<Longrightarrow>
   filter is_update (calls (dispatch env w ev)) =
   filter is_update (calls w) @ map (\<lambda>d. CtlUpdate (frame_dt d)) (frame_deltas [ev])"
  by (cases ev) (simp_all add: on_resize_updates on_keydown_updates animate_updates)

lemma frame_deltas_Cons: "frame_deltas (ev # evs) = frame_deltas [ev] @ frame_deltas evs"
  by (cases ev) simp_all

lemma run_update_calls:
  "pending_frames w = Suc 0 \<Longrightarrow>
   filter is_update (calls (run env w evs)) =
   filter is_update (calls w) @ map (\<lambda>d. CtlUpdate (frame_dt d)) (frame_deltas evs)"
proof (induction evs arbitrary: w)
  case Nil
  then show ?case by (simp add: run_def)
next
  case (Cons ev evs)
  have p: "pending_frames (dispatch env w ev) = Suc 0"
    using Cons.prems by (rule dispatch_pending)
  have step: "run env w (ev # evs) = run env (dispatch env w ev) evs"
    by (simp add: run_def)
  show ?case
    unfolding step Cons.IH [OF p] dispatch_update_calls [OF Cons.prems]
    by (subst (2) frame_deltas_Cons) simp
qed

lemma dispatch_pixel_ratio: "pixel_ratio (dispatch env w ev) = pixel_ratio w"
  by (cases ev) (simp_all add: on_resize_def on_keydown_def Let_def animate_pixel_ratio)

lemma run_pixel_ratio: "pixel_ratio (run env w evs) = pixel_ratio w"
  unfolding run_def by (induction evs arbitrary: w) (simp_all add: dispatch_pixel_ratio)

lemma spec_hud_text_example:
  "spec_hud_text (\<lambda>q. []) \<lparr> speed = Fin (1234 / 100), pitchDeg = Fin (5 / 2), bankDeg = Fin (- 14) \<rparr>
     (Fin (1 / 2)) =
   ''Vel: 12.3 u/s<br>Throttle: 50%<br>Pitch/Bank: 3'' @ [CHR 0xB0] @ '' / -14'' @ [CHR 0xB0]"
proof -
  have a: "toFixed (\<lambda>q. []) 1 (Fin (1234 / 100)) = ''12.3''" by code_simp
  have b: "toFixed (\<lambda>q. []) 0 (Fin (5 / 2)) = ''3''" by code_simp
  have c: "toFixed (\<lambda>q. []) 0 (Fin (- 14)) = ''-14''" by code_simp
  have d: "int_to_string 50 = ''50''" by code_simp
  show ?thesis
    unfolding spec_hud_text_def status.simps percent_half a b c d by simp
qed

section \<open>Facts about the controller of the spec\<close>

lemma enforce_min_height_le:
  "minY c \<noteq> NaN \<Longrightarrow> js_le (minY c) (vy (pos (enforce_min_height c f)))"
  by (simp add: enforce_min_height_def js_le_refl)

lemma minY_controller_config: "minY controller_config = Fin 2"
  by (simp add: controller_config_def lit_2)

lemma airplane_update_height:
  "cfg c = controller_config \<Longrightarrow>
   js_le (Fin 2) (vy (pos (plane (airplane_update integrate dt c))))"
  using enforce_min_height_le [of controller_config "integrate controller_config dt (plane c)"]
  by (simp add: airplane_update_def minY_controller_config)

lemma airplane_update_cfg: "cfg (airplane_update integrate dt c) = cfg c"
  by (simp add: airplane_update_def)

lemma animate_grounded:
  "cfg (ctl w) = controller_config \<Longrightarrow> grounded (animate (spec_env integrate big) delta w)"
  by (simp add: grounded_def animate_ctl spec_env_def airplane_update_height airplane_update_cfg)

lemma dispatch_grounded:
  "grounded w \<Longrightarrow> grounded (dispatch (spec_env integrate big) w ev)"
proof (cases ev)
  case (EvResize iw ih)
  assume "grounded w"
  then show ?thesis using EvResize by (simp add: grounded_def on_resize_def Let_def)
next
  case (EvKeyDown code)
  assume "grounded w"
  then show ?thesis using EvKeyDown
    by (simp add: grounded_def on_keydown_def spec_env_def airplane_setTransform_def
        reset_pose_def lit_2 js_le_def)
next
  case (EvFrame delta)
  assume g: "grounded w"
  then have "cfg (ctl (w\<lparr> pending_frames := pending_frames w - 1 \<rparr>)) = controller_config"
    by (simp add: grounded_def)
  then have "grounded (animate (spec_env integrate big) delta (w\<lparr> pending_frames := pending_frames w - 1 \<rparr>))"
    by (rule animate_grounded)
  with g show ?thesis using EvFrame by simp
qed

lemma run_grounded:
  "grounded w \<Longrightarrow> grounded (run (spec_env integrate big) w evs)"
  unfolding run_def by (induction evs arbitrary: w) (simp_all add: dispatch_grounded)

lemma main_grounded: "grounded (main (spec_env integrate big) iw ih dpr hud d0)"
  unfolding main_def
  by (rule animate_grounded)
    (simp add: startup_def spec_env_def airplane_setTransform_def airplane_new_def)

section \<open>The claims\<close>

text \<open>
  C1. In every frame the time step given to \<open>controller.update\<close> is
  \<open>Math.min(0.05, clock.getDelta())\<close>: it is the argument of the one call of \<open>update\<close>
  the frame adds, and the controller state after the frame is the result of that call;
  the calls of \<open>update\<close> of a whole run are these time steps, one for the script's own
  frame and one for every display refresh, in their order. For a clock delta that is not
  negative, the time step is at most \<open>0.05\<close>, the number the literal denotes.
\<close>

theorem animate_time_step:
  "ctl (animate env delta w) = update env (math_min (lit (5 / 100)) delta) (ctl w) \<and>
   filter is_update (calls (animate env delta w)) =
     filter is_update (calls w) @ [CtlUpdate (math_min (lit (5 / 100)) delta)] \<and>
   filter is_update (calls (run env (main env iw ih dpr hud d0) evs)) =
     map (\<lambda>d. CtlUpdate (math_min (lit (5 / 100)) d)) (d0 # frame_deltas evs) \<and>
   (js_le (Fin 0) delta \<longrightarrow> js_le (math_min (lit (5 / 100)) delta) (lit (5 / 100)))"
proof -
  have "js_le (math_min (lit (5 / 100)) delta) (lit (5 / 100))" if "js_le (Fin 0) delta"
  proof -
    from that have "delta \<noteq> NaN" by (simp add: js_le_def)
    then show ?thesis by (intro math_min_le_left) (simp_all add: lit_005n)
  qed
  moreover have "filter is_update (calls (run env (main env iw ih dpr hud d0) evs)) =
      filter is_update (calls (main env iw ih dpr hud d0)) @
      map (\<lambda>d. CtlUpdate (frame_dt d)) (frame_deltas evs)"
    by (rule run_update_calls) (rule main_pending)
  ultimately show ?thesis
    using animate_ctl [of env delta w] animate_updates [of env delta w]
    by (simp add: frame_dt_def main_updates)
qed

theorem animate_time_step_witness:
  "js_le (Fin 0) (Fin (1 / 4)) \<and>
   math_min (lit (5 / 100)) (Fin (1 / 4)) = Fin (3602879701896397 / 2 ^ 56) \<and>
   math_min (lit (5 / 100)) (Fin (1 / 100)) = Fin (1 / 100) \<and>
   js_le (math_min (lit (5 / 100)) (Fin (1 / 4))) (lit (5 / 100)) \<and>
   filter is_update
     (calls (run (spec_env (\<lambda>c dt f. f) (\<lambda>q. []))
        (main (spec_env (\<lambda>c dt f. f) (\<lambda>q. [])) (Fin 800) (Fin 600) (Fin 1) None (Fin 0))
        [EvFrame (Fin (1 / 4)), EvKeyDown ''KeyR'', EvFrame (Fin (1 / 100))])) =
     [CtlUpdate (Fin 0), CtlUpdate (Fin (3602879701896397 / 2 ^ 56)), CtlUpdate (Fin (1 / 100))]"
proof -
  have h: "js_le (Fin 0) (Fin (1 / 4))" by (simp add: js_le_def)
  have a: "math_min (lit (5 / 100)) (Fin (1 / 4)) = Fin (3602879701896397 / 2 ^ 56)"
    by (simp add: lit_005n math_min_def min_step_def)
  have b: "math_min (lit (5 / 100)) (Fin (1 / 100)) = Fin (1 / 100)"
    by (simp add: lit_005n math_min_def min_step_def)
  have c: "math_min (lit (5 / 100)) (Fin 0) = Fin 0"
    by (simp add: lit_005n math_min_def min_step_def)
  show ?thesis
    using h a b c animate_time_step
      [where env = "spec_env (\<lambda>c dt f. f) (\<lambda>q. [])" and delta = "Fin (1 / 4)"
        and iw = "Fin 800" and ih = "Fin 600" and dpr = "Fin 1" and hud = None
        and ?d0.0 = "Fin 0"
        and evs = "[EvFrame (Fin (1 / 4)), EvKeyDown ''KeyR'', EvFrame (Fin (1 / 100))]"]
    by simp
qed

text \<open>
  C3. On a keydown with code \<open>KeyR\<close> the listener calls \<open>controller.setTransform\<close>, once,
  with the position \<open>(0, 2, 0)\<close>, the Euler angles \<open>(0, 0, 0)\<close> in the order \<open>YXZ\<close> and
  the throttle \<open>0\<close>; the script calls \<open>setTransform\<close> with the same pose when it starts,
  on the controller it has just constructed.
\<close>

theorem keydown_R_takeoff_pose:
  "reset_pose =
     \<lparr> position = \<lparr> vx = Fin 0, vy = Fin 2, vz = Fin 0 \<rparr>,
       euler = \<lparr> ex = Fin 0, ey = Fin 0, ez = Fin 0, order = ''YXZ'' \<rparr>,
       throttle = Fin 0 \<rparr> \<and>
   on_keydown env ''KeyR'' w =
     w\<lparr> ctl := setTransform env reset_pose (ctl w),
        calls := calls w @ [CtlSetTransform reset_pose] \<rparr> \<and>
   ctl (startup env iw ih dpr hud) = setTransform env reset_pose (construct env controller_config) \<and>
   filter (\<lambda>c. case c of CtlSetTransform _ \<Rightarrow> True | _ \<Rightarrow> False) (calls (startup env iw ih dpr hud)) =
     [CtlSetTransform reset_pose]"
  by (simp add: on_keydown_def startup_def initial_pose_def reset_pose_def lit_0 lit_2)

theorem keydown_R_takeoff_pose_witness:
  "calls (on_keydown (spec_env (\<lambda>c dt f. f) (\<lambda>q. [])) ''KeyR''
      (startup (spec_env (\<lambda>c dt f. f) (\<lambda>q. [])) (Fin 800) (Fin 600) (Fin 1) None)) =
   calls (startup (spec_env (\<lambda>c dt f. f) (\<lambda>q. [])) (Fin 800) (Fin 600) (Fin 1) None) @
     [CtlSetTransform
        \<lparr> position = \<lparr> vx = Fin 0, vy = Fin 2, vz = Fin 0 \<rparr>,
          euler = \<lparr> ex = Fin 0, ey = Fin 0, ez = Fin 0, order = ''YXZ'' \<rparr>,
          throttle = Fin 0 \<rparr>]"
  using keydown_R_takeoff_pose [of "spec_env (\<lambda>c dt f. f) (\<lambda>q. [])"
      "startup (spec_env (\<lambda>c dt f. f) (\<lambda>q. [])) (Fin 800) (Fin 600) (Fin 1) None"]
  by simp

text \<open>
  C4. When there is a HUD element, \<open>updateHUD\<close> replaces its content by the text of the
  spec: \<open>Vel: \<close> and the speed to one decimal and \<open> u/s\<close>; \<open>Throttle: \<close> and the
  truncated percentage of the engine power and \<open>%\<close>; \<open>Pitch/Bank: \<close> and the pitch and the
  bank in whole degrees; with a line break, the element \<open><br>\<close>, between two lines. The
  text is a function of the status snapshot and the engine power only, and in a frame
  they are those of the controller after the frame's update.
\<close>

theorem hud_shows_status_text:
  "hudEl w = Some old \<Longrightarrow>
   hudEl (updateHUD env w) =
     Some (spec_hud_text (big_to_string env) (getStatus env (ctl w)) (getEnginePower env (ctl w))) \<and>
   hudEl (animate env delta w) =
     Some (spec_hud_text (big_to_string env)
       (getStatus env (update env (frame_dt delta) (ctl w)))
       (getEnginePower env (update env (frame_dt delta) (ctl w))))"
  using updateHUD_text [of w old env]
    updateHUD_text [of "w\<lparr> ctl := update env (frame_dt delta) (ctl w) \<rparr>" old env]
  by (simp add: animate_hudEl)

theorem hud_shows_status_text_witness:
  "hudEl (startup
      \<lparr> construct = airplane_new, setTransform = airplane_setTransform,
        update = airplane_update (\<lambda>c dt f. f),
        getStatus = (\<lambda>c. \<lparr> speed = Fin (1234 / 100), pitchDeg = Fin (5 / 2), bankDeg = Fin (- 14) \<rparr>),
        getEnginePower = (\<lambda>c. Fin (1 / 2)), big_to_string = (\<lambda>q. []) \<rparr>
      (Fin 800) (Fin 600) (Fin 1) (Some [])) = Some [] \<and>
   hudEl (updateHUD
      \<lparr> construct = airplane_new, setTransform = airplane_setTransform,
        update = airplane_update (\<lambda>c dt f. f),
        getStatus = (\<lambda>c. \<lparr> speed = Fin (1234 / 100), pitchDeg = Fin (5 / 2), bankDeg = Fin (- 14) \<rparr>),
        getEnginePower = (\<lambda>c. Fin (1 / 2)), big_to_string = (\<lambda>q. []) \<rparr>
     (startup
      \<lparr> construct = airplane_new, setTransform = airplane_setTransform,
        update = airplane_update (\<lambda>c dt f. f),
        getStatus = (\<lambda>c. \<lparr> speed = Fin (1234 / 100), pitchDeg = Fin (5 / 2), bankDeg = Fin (- 14) \<rparr>),
        getEnginePower = (\<lambda>c. Fin (1 / 2)), big_to_string = (\<lambda>q. []) \<rparr>
      (Fin 800) (Fin 600) (Fin 1) (Some []))) =
   Some (''Vel: 12.3 u/s<br>Throttle: 50%<br>Pitch/Bank: 3'' @ [CHR 0xB0] @ '' / -14'' @ [CHR 0xB0])"
  (is "hudEl (startup ?E _ _ _ _) = _ \<and> _")
proof -
  have h: "hudEl (startup ?E (Fin 800) (Fin 600) (Fin 1) (Some [])) = Some []"
    by (simp add: startup_def)
  show ?thesis
    using h hud_shows_status_text [OF h, of ?E "Fin 0"] spec_hud_text_example
    by simp
qed

text \<open>
  C5. When the lookup of the HUD element gave null, \<open>updateHUD\<close> returns at once: it
  makes no call into the controller and writes nothing. It is the only path that gives
  up: with an element \<open>updateHUD\<close> always makes its three calls, and the resize listener,
  the reset and \<open>animate\<close> make theirs whatever the state is. main.js has no \<open>throw\<close>,
  \<open>try\<close> or \<open>catch\<close>, so its functions have no error value.
\<close>

theorem updateHUD_null_guard:
  "(hudEl w = None \<longrightarrow> updateHUD env w = w) \<and>
   (\<forall>old. hudEl w = Some old \<longrightarrow> length (calls (updateHUD env w)) = length (calls w) + 3) \<and>
   length (calls (on_resize iw ih w)) = length (calls w) + 2 \<and>
   length (calls (on_keydown env ''KeyR'' w)) = length (calls w) + 1 \<and>
   length (calls (animate env delta w)) =
     length (calls w) + 3 + (case hudEl w of None \<Rightarrow> 0 | Some _ \<Rightarrow> 3)"
  by (simp add: updateHUD_def on_resize_def on_keydown_def animate_def Let_def
      split: option.split)

theorem updateHUD_null_guard_witness:
  "hudEl (startup (spec_env (\<lambda>c dt f. f) (\<lambda>q. [])) (Fin 800) (Fin 600) (Fin 1) None) = None \<and>
   updateHUD (spec_env (\<lambda>c dt f. f) (\<lambda>q. []))
     (startup (spec_env (\<lambda>c dt f. f) (\<lambda>q. [])) (Fin 800) (Fin 600) (Fin 1) None) =
   startup (spec_env (\<lambda>c dt f. f) (\<lambda>q. [])) (Fin 800) (Fin 600) (Fin 1) None \<and>
   hudEl (startup (spec_env (\<lambda>c dt f. f) (\<lambda>q. [])) (Fin 800) (Fin 600) (Fin 1) (Some [])) = Some [] \<and>
   length (calls (updateHUD (spec_env (\<lambda>c dt f. f) (\<lambda>q. []))
     (startup (spec_env (\<lambda>c dt f. f) (\<lambda>q. [])) (Fin 800) (Fin 600) (Fin 1) (Some [])))) = 9"
proof -
  have h: "hudEl (startup (spec_env (\<lambda>c dt f. f) (\<lambda>q. [])) (Fin 800) (Fin 600) (Fin 1) None) = None"
    by (simp add: startup_def)
  have k: "hudEl (startup (spec_env (\<lambda>c dt f. f) (\<lambda>q. [])) (Fin 800) (Fin 600) (Fin 1) (Some [])) = Some []"
    by (simp add: startup_def)
  have l: "length (calls (startup (spec_env (\<lambda>c dt f. f) (\<lambda>q. [])) (Fin 800) (Fin 600) (Fin 1) (Some []))) = 6"
    by (simp add: startup_def)
  show ?thesis
    using h k l
      updateHUD_null_guard [of "startup (spec_env (\<lambda>c dt f. f) (\<lambda>q. [])) (Fin 800) (Fin 600) (Fin 1) None"
        "spec_env (\<lambda>c dt f. f) (\<lambda>q. [])"]
      updateHUD_null_guard [of "startup (spec_env (\<lambda>c dt f. f) (\<lambda>q. [])) (Fin 800) (Fin 600) (Fin 1) (Some [])"
        "spec_env (\<lambda>c dt f. f) (\<lambda>q. [])"]
    by simp
qed

text \<open>
  C7. After a resize the camera's aspect ratio is \<open>window.innerWidth / window.innerHeight\<close>,
  the projection matrix has been recomputed from that aspect ratio, after it was set,
  and the renderer's size is the window's new inner size. The aspect ratio is the
  quotient as JavaScript divides: for a positive width and height it is the double
  nearest to the quotient, the quotient itself where that is a double and otherwise
  within half a unit in the last place of it; for a height of 0 it is \<open>Infinity\<close>, and
  NaN when the width is 0 too.
\<close>

theorem resize_sets_aspect_and_size:
  "camera_aspect (on_resize iw ih w) = js_div iw ih \<and>
   camera_proj (on_resize iw ih w) = camera_aspect (on_resize iw ih w) \<and>
   renderer_size (on_resize iw ih w) = (iw, ih) \<and>
   calls (on_resize iw ih w) = calls w @ [UpdateProjectionMatrix, RendererSetSize iw ih] \<and>
   dispatch env w (EvResize iw ih) = on_resize iw ih w \<and>
   (0 < a \<and> 0 < b \<longrightarrow>
      camera_aspect (on_resize (Fin a) (Fin b) w) = round_double (a / b)) \<and>
   (0 < a \<and> 0 < b \<and> is_double (a / b) \<longrightarrow>
      camera_aspect (on_resize (Fin a) (Fin b) w) = Fin (a / b)) \<and>
   (0 < a \<and> 0 < b \<and> a / b < 2 powi 1023 \<longrightarrow>
      (\<exists>r. camera_aspect (on_resize (Fin a) (Fin b) w) = Fin r \<and>
           \<bar>r - a / b\<bar> \<le> 2 powi ulp_exp (a / b) / 2)) \<and>
   (0 < a \<longrightarrow> camera_aspect (on_resize (Fin a) (Fin 0) w) = PInf) \<and>
   camera_aspect (on_resize (Fin 0) (Fin 0) w) = NaN"
proof -
  have asp: "camera_aspect (on_resize x y w) = js_div x y" for x y
    by (simp add: on_resize_def Let_def)
  have q: "0 < a / b" if "0 < a" "0 < b" using that by simp
  have exact: "camera_aspect (on_resize (Fin a) (Fin b) w) = Fin (a / b)"
    if "0 < a" "0 < b" "is_double (a / b)"
    using that round_double_exact [OF that(3) q [OF that(1,2)]] by (simp add: asp js_div_pos)
  have near: "\<exists>r. camera_aspect (on_resize (Fin a) (Fin b) w) = Fin r \<and>
      \<bar>r - a / b\<bar> \<le> 2 powi ulp_exp (a / b) / 2"
    if "0 < a" "0 < b" "a / b < 2 powi 1023"
    using that round_double_near [OF q [OF that(1,2)] that(3)] by (simp add: asp js_div_pos)
  have zero: "camera_aspect (on_resize (Fin a) (Fin 0) w) = PInf" if "0 < a"
    using that by (simp add: asp js_div_def signed_inf_def)
  have nan: "camera_aspect (on_resize (Fin 0) (Fin 0) w) = NaN"
    by (simp add: asp js_div_def)
  show ?thesis
    using exact near zero nan
    by (simp add: asp js_div_pos) (simp add: on_resize_def Let_def)
qed

theorem resize_sets_aspect_and_size_witness:
  "(0::rat) < 1024 \<and> (0::rat) < 768 \<and> (1024 / 768 :: rat) < 2 powi 1023 \<and>
   camera_aspect (on_resize (Fin 1024) (Fin 768)
      (startup (spec_env (\<lambda>c dt f. f) (\<lambda>q. [])) (Fin 800) (Fin 600) (Fin 1) None)) =
     Fin (6004799503160661 / 2 ^ 52) \<and>
   camera_proj (on_resize (Fin 1024) (Fin 768)
      (startup (spec_env (\<lambda>c dt f. f) (\<lambda>q. [])) (Fin 800) (Fin 600) (Fin 1) None)) =
     Fin (6004799503160661 / 2 ^ 52) \<and>
   renderer_size (on_resize (Fin 1024) (Fin 768)
      (startup (spec_env (\<lambda>c dt f. f) (\<lambda>q. [])) (Fin 800) (Fin 600) (Fin 1) None)) =
     (Fin 1024, Fin 768) \<and>
   \<bar>6004799503160661 / 2 ^ 52 - 1024 / 768 :: rat\<bar> \<le> 2 powi ulp_exp (1024 / 768) / 2 \<and>
   (0::rat) < 1200 \<and> (0::rat) < 600 \<and> is_double (1200 / 600) \<and>
   camera_aspect (on_resize (Fin 1200) (Fin 600)
      (startup (spec_env (\<lambda>c dt f. f) (\<lambda>q. [])) (Fin 800) (Fin 600) (Fin 1) None)) = Fin 2 \<and>
   camera_aspect (on_resize (Fin 800) (Fin 0)
      (startup (spec_env (\<lambda>c dt f. f) (\<lambda>q. [])) (Fin 800) (Fin 600) (Fin 1) None)) = PInf"
  (is "_ \<and> _ \<and> _ \<and> camera_aspect (on_resize _ _ ?w) = _ \<and> _")
proof -
  have p: "(0::rat) < 1024" "(0::rat) < 768" "(0::rat) < 1200" "(0::rat) < 600" "(0::rat) < 800"
    by simp_all
  have big: "(1024 / 768 :: rat) < 2 powi 1023" by simp
  have d2: "is_double (1200 / 600)" using is_double_2 by simp
  note T1 = resize_sets_aspect_and_size
    [where iw = "Fin 1024" and ih = "Fin 768" and a = 1024 and b = 768 and w = ?w]
  note T2 = resize_sets_aspect_and_size
    [where iw = "Fin 1200" and ih = "Fin 600" and a = 1200 and b = 600 and w = ?w]
  note T3 = resize_sets_aspect_and_size
    [where iw = "Fin 800" and ih = "Fin 0" and a = 800 and b = 1 and w = ?w]
  from T1 have "camera_aspect (on_resize (Fin 1024) (Fin 768) ?w) = js_div (Fin 1024) (Fin 768)"
    by blast
  then have a1: "camera_aspect (on_resize (Fin 1024) (Fin 768) ?w) = Fin (6004799503160661 / 2 ^ 52)"
    by (simp only: aspect_1024_768)
  from T1 have "camera_proj (on_resize (Fin 1024) (Fin 768) ?w) =
      camera_aspect (on_resize (Fin 1024) (Fin 768) ?w)"
    by blast
  then have a2: "camera_proj (on_resize (Fin 1024) (Fin 768) ?w) = Fin (6004799503160661 / 2 ^ 52)"
    by (simp only: a1)
  from T1 have a3: "renderer_size (on_resize (Fin 1024) (Fin 768) ?w) = (Fin 1024, Fin 768)"
    by blast
  from T1 p(1,2) big obtain r where
    r: "camera_aspect (on_resize (Fin 1024) (Fin 768) ?w) = Fin r"
      "\<bar>r - 1024 / 768\<bar> \<le> 2 powi ulp_exp (1024 / 768) / 2"
    by blast
  from r(1) have "r = 6004799503160661 / 2 ^ 52" by (simp only: a1 jsnum.inject)
  with r(2) have n1:
    "\<bar>6004799503160661 / 2 ^ 52 - 1024 / 768 :: rat\<bar> \<le> 2 powi ulp_exp (1024 / 768) / 2"
    by (simp only:)
  from T2 p(3,4) d2 have "camera_aspect (on_resize (Fin 1200) (Fin 600) ?w) = Fin (1200 / 600)"
    by blast
  then have a4: "camera_aspect (on_resize (Fin 1200) (Fin 600) ?w) = Fin 2" by simp
  from T3 p(5) have a5: "camera_aspect (on_resize (Fin 800) (Fin 0) ?w) = PInf"
    by blast
  show ?thesis
    using p(1,2,3,4) big d2 a1 a2 a3 n1 a4 a5 by (intro conjI)
qed

text \<open>
  C8. A call of \<open>animate\<close> makes these calls, in this order: \<open>controller.update(dt)\<close>, then
  those of \<open>updateHUD\<close>, which reads the controller after the update, then
  \<open>renderer.render\<close>, then \<open>requestAnimationFrame\<close>; so it calls \<open>update\<close> exactly once
  and leaves one more frame callback pending. The start-up, \<open>updateHUD\<close>, the resize
  listener and the keydown listener never call \<open>update\<close>. After the script and any
  sequence of events exactly one frame callback is pending, and \<open>update\<close> has been called
  once by the script's own call of \<open>animate\<close> and once more for every display refresh.
\<close>

theorem animate_updates_once_then_hud_then_render:
  "calls (animate env delta w) =
     calls w @ [CtlUpdate (frame_dt delta)] @
       (case hudEl (animate env delta w) of None \<Rightarrow> []
        | Some html \<Rightarrow> [CtlGetStatus, CtlGetEnginePower, SetInnerHTML html]) @
       [Render, RequestAnimationFrame] \<and>
   hudEl (animate env delta w) =
     hudEl (updateHUD env (w\<lparr> ctl := update env (frame_dt delta) (ctl w) \<rparr>)) \<and>
   length (filter is_update (calls (animate env delta w))) =
     Suc (length (filter is_update (calls w))) \<and>
   pending_frames (animate env delta w) = Suc (pending_frames w) \<and>
   filter is_update (calls (startup env iw ih dpr hud)) = [] \<and>
   filter is_update (calls (updateHUD env w)) = filter is_update (calls w) \<and>
   filter is_update (calls (on_resize iw ih w)) = filter is_update (calls w) \<and>
   filter is_update (calls (on_keydown env code w)) = filter is_update (calls w) \<and>
   pending_frames (run env (main env iw ih dpr hud d0) evs) = 1 \<and>
   length (filter is_update (calls (run env (main env iw ih dpr hud d0) evs))) =
     Suc (length (filter is_frame evs))"
proof -
  have loop:
    "pending_frames (run env (main env iw ih dpr hud d0) evs) = Suc 0 \<and>
     length (filter is_update (calls (run env (main env iw ih dpr hud d0) evs))) =
       length (filter is_update (calls (main env iw ih dpr hud d0))) +
       length (filter is_frame evs)"
    by (rule run_pending_updates) (rule main_pending)
  have once: "length (filter is_update (calls (animate env delta w))) =
      Suc (length (filter is_update (calls w)))"
    by (simp add: animate_updates)
  have frames: "length (filter is_update (calls (run env (main env iw ih dpr hud d0) evs))) =
      Suc (length (filter is_frame evs))"
    using loop by (simp add: main_updates)
  have single: "pending_frames (run env (main env iw ih dpr hud d0) evs) = 1"
    using loop by simp
  show ?thesis
    using animate_calls [of env delta w] animate_hudEl [of env delta w] once frames single
      animate_pending [of env delta w] startup_updates [of env iw ih dpr hud]
      updateHUD_updates [of env w] on_resize_updates [of iw ih w]
      on_keydown_updates [of env code w]
    by blast
qed

theorem animate_updates_once_then_hud_then_render_witness:
  "pending_frames
     (run (spec_env (\<lambda>c dt f. f) (\<lambda>q. []))
        (main (spec_env (\<lambda>c dt f. f) (\<lambda>q. [])) (Fin 800) (Fin 600) (Fin 1) None (Fin 0))
        [EvFrame (Fin (1 / 60)), EvKeyDown ''KeyR'', EvResize (Fin 1024) (Fin 768),
         EvFrame (Fin 3)]) = 1 \<and>
   length (filter is_update (calls
     (run (spec_env (\<lambda>c dt f. f) (\<lambda>q. []))
        (main (spec_env (\<lambda>c dt f. f) (\<lambda>q. [])) (Fin 800) (Fin 600) (Fin 1) None (Fin 0))
        [EvFrame (Fin (1 / 60)), EvKeyDown ''KeyR'', EvResize (Fin 1024) (Fin 768),
         EvFrame (Fin 3)]))) = 3"
  using animate_updates_once_then_hud_then_render
    [where env = "spec_env (\<lambda>c dt f. f) (\<lambda>q. [])" and iw = "Fin 800" and ih = "Fin 600"
      and dpr = "Fin 1" and hud = None and ?d0.0 = "Fin 0"
      and evs = "[EvFrame (Fin (1 / 60)), EvKeyDown ''KeyR'', EvResize (Fin 1024) (Fin 768),
        EvFrame (Fin 3)]"]
  by simp

text \<open>
  C9. On a keydown whose code is not \<open>KeyR\<close> the listener does nothing: the whole state,
  with the controller and the plane transform it owns, the scene, the camera, the
  renderer and the HUD, is as it was, and no call is made.
\<close>

theorem keydown_other_is_noop:
  "code \<noteq> ''KeyR'' \<Longrightarrow> on_keydown env code w = w"
  by (simp add: on_keydown_def)

theorem keydown_other_is_noop_witness:
  "''KeyW'' \<noteq> ''KeyR'' \<and>
   on_keydown (spec_env (\<lambda>c dt f. f) (\<lambda>q. [])) ''KeyW''
     (startup (spec_env (\<lambda>c dt f. f) (\<lambda>q. [])) (Fin 800) (Fin 600) (Fin 1) None) =
   startup (spec_env (\<lambda>c dt f. f) (\<lambda>q. [])) (Fin 800) (Fin 600) (Fin 1) None"
proof -
  have h: "''KeyW'' \<noteq> ''KeyR''" by simp
  show ?thesis
    using h keydown_other_is_noop [OF h, of "spec_env (\<lambda>c dt f. f) (\<lambda>q. [])"
        "startup (spec_env (\<lambda>c dt f. f) (\<lambda>q. [])) (Fin 800) (Fin 600) (Fin 1) None"]
    by simp
qed

text \<open>
  C10. The renderer's pixel ratio is set once, when the script starts, to
  \<open>Math.min(window.devicePixelRatio, 2)\<close>: the device pixel ratio itself when that is
  below 2, 2 when it is 2 or more, and NaN when it is NaN. So it is never greater than 2,
  and at most 2 when the device pixel ratio is a number. No event changes it.
\<close>

theorem pixel_ratio_at_most_2:
  "pixel_ratio (startup env iw ih d hud) = math_min d (lit 2) \<and>
   filter (\<lambda>c. case c of RendererSetPixelRatio _ \<Rightarrow> True | _ \<Rightarrow> False)
     (calls (startup env iw ih d hud)) = [RendererSetPixelRatio (math_min d (lit 2))] \<and>
   \<not> js_lt (Fin 2) (math_min d (lit 2)) \<and>
   (d \<noteq> NaN \<longrightarrow> js_le (math_min d (lit 2)) (Fin 2)) \<and>
   pixel_ratio (run env (main env iw ih d hud d0) evs) = math_min d (lit 2) \<and>
   (js_lt d (Fin 2) \<longrightarrow> pixel_ratio (startup env iw ih d hud) = d) \<and>
   (js_le (Fin 2) d \<longrightarrow> pixel_ratio (startup env iw ih d hud) = Fin 2) \<and>
   pixel_ratio (startup env iw ih NaN hud) = NaN"
proof -
  have "\<not> js_lt (Fin 2) (math_min d (lit 2))"
    using math_min_not_gt_right [of "lit 2" d] by (simp add: lit_2)
  moreover have "js_le (math_min d (lit 2)) (Fin 2)" if "d \<noteq> NaN"
    using math_min_le_right [of d "lit 2"] that by (simp add: lit_2)
  moreover have "pixel_ratio (run env (main env iw ih d hud d0) evs) = math_min d (lit 2)"
    by (simp add: run_pixel_ratio main_def animate_pixel_ratio startup_def)
  moreover have "math_min d (lit 2) = d" if "js_lt d (Fin 2)"
    using that by (cases d) (auto simp: math_min_def min_step_def lit_2)
  moreover have "math_min d (lit 2) = Fin 2" if "js_le (Fin 2) d"
    using that by (cases d) (auto simp: math_min_def min_step_def lit_2 js_le_def)
  moreover have "math_min NaN (lit 2) = NaN" by (simp add: math_min_def)
  ultimately show ?thesis
    by (simp add: startup_def)
qed

theorem pixel_ratio_at_most_2_witness:
  "Fin 3 \<noteq> NaN \<and> js_le (Fin 2) (Fin 3) \<and> js_lt (Fin (3 / 2)) (Fin 2) \<and> js_lt (Fin 1) (Fin 2) \<and>
   pixel_ratio (startup (spec_env (\<lambda>c dt f. f) (\<lambda>q. [])) (Fin 800) (Fin 600) (Fin 3) None) = Fin 2 \<and>
   pixel_ratio (startup (spec_env (\<lambda>c dt f. f) (\<lambda>q. [])) (Fin 800) (Fin 600) (Fin (3 / 2)) None) =
     Fin (3 / 2) \<and>
   pixel_ratio (startup (spec_env (\<lambda>c dt f. f) (\<lambda>q. [])) (Fin 800) (Fin 600) (Fin 1) None) = Fin 1 \<and>
   pixel_ratio (startup (spec_env (\<lambda>c dt f. f) (\<lambda>q. [])) (Fin 800) (Fin 600) NaN None) = NaN \<and>
   math_min (Fin 3) (lit 2) = Fin 2 \<and> math_min (Fin (3 / 2)) (lit 2) = Fin (3 / 2) \<and>
   js_le (math_min (Fin 3) (lit 2)) (Fin 2)"
  (is "_ \<and> _ \<and> _ \<and> _ \<and> pixel_ratio (?S (Fin 3)) = _ \<and> _")
proof -
  have h: "js_le (Fin 2) (Fin 3)" "js_lt (Fin (3 / 2)) (Fin 2)" "js_lt (Fin 1) (Fin 2)"
    "Fin 3 \<noteq> NaN"
    by (simp_all add: js_le_def)
  note T3 = pixel_ratio_at_most_2
    [where env = "spec_env (\<lambda>c dt f. f) (\<lambda>q. [])" and iw = "Fin 800" and ih = "Fin 600"
      and d = "Fin 3" and hud = None]
  note T32 = pixel_ratio_at_most_2
    [where env = "spec_env (\<lambda>c dt f. f) (\<lambda>q. [])" and iw = "Fin 800" and ih = "Fin 600"
      and d = "Fin (3 / 2)" and hud = None]
  note T1 = pixel_ratio_at_most_2
    [where env = "spec_env (\<lambda>c dt f. f) (\<lambda>q. [])" and iw = "Fin 800" and ih = "Fin 600"
      and d = "Fin 1" and hud = None]
  from T3 h(1) have r3: "pixel_ratio (?S (Fin 3)) = Fin 2" by blast
  from T32 h(2) have r32: "pixel_ratio (?S (Fin (3 / 2))) = Fin (3 / 2)" by blast
  from T1 h(3) have r1: "pixel_ratio (?S (Fin 1)) = Fin 1" by blast
  from T1 have rn: "pixel_ratio (?S NaN) = NaN" by blast
  from T3 have "pixel_ratio (?S (Fin 3)) = math_min (Fin 3) (lit 2)" by blast
  then have m3: "math_min (Fin 3) (lit 2) = Fin 2" by (simp only: r3)
  from T32 have "pixel_ratio (?S (Fin (3 / 2))) = math_min (Fin (3 / 2)) (lit 2)" by blast
  then have m32: "math_min (Fin (3 / 2)) (lit 2) = Fin (3 / 2)" by (simp only: r32)
  from T3 h(4) have le: "js_le (math_min (Fin 3) (lit 2)) (Fin 2)" by blast
  show ?thesis
    using h(4,1,2,3) r3 r32 r1 rn m3 m32 le by (intro conjI)
qed

text \<open>
  C2. With the controller of the spec, whose \<open>update\<close> ends with the ground-height clamp,
  and the configuration main.js constructs it with, where \<open>minY\<close> is 2: after a call of
  \<open>update\<close> the plane's height is at least 2, whatever the integration step did and
  whatever the time step was, and the configuration is unchanged. So after the script and
  any sequence of events the plane's height is at least 2.
\<close>

theorem update_enforces_min_height:
  "(cfg c = controller_config \<longrightarrow>
      js_le (Fin 2) (vy (pos (plane (airplane_update integrate dt c)))) \<and>
      cfg (airplane_update integrate dt c) = controller_config) \<and>
   minY controller_config = Fin 2 \<and>
   js_le (Fin 2) (vy (pos (plane (ctl
     (run (spec_env integrate big) (main (spec_env integrate big) iw ih dpr hud d0) evs)))))"
proof -
  have "grounded (run (spec_env integrate big) (main (spec_env integrate big) iw ih dpr hud d0) evs)"
    by (rule run_grounded) (rule main_grounded)
  then show ?thesis
    by (simp add: grounded_def airplane_update_height airplane_update_cfg minY_controller_config)
qed

theorem update_enforces_min_height_witness:
  "cfg (airplane_setTransform initial_pose (airplane_new controller_config)) = controller_config \<and>
   vy (pos (plane (airplane_update
     (\<lambda>c dt f. f\<lparr> pos := \<lparr> vx = Fin 0, vy = Fin (- 5), vz = Fin (- 3) \<rparr> \<rparr>) (Fin (1 / 60))
     (airplane_setTransform initial_pose (airplane_new controller_config))))) = Fin 2 \<and>
   vy (pos (plane (airplane_update
     (\<lambda>c dt f. f\<lparr> pos := \<lparr> vx = Fin 0, vy = Fin 7, vz = Fin (- 3) \<rparr> \<rparr>) (Fin (1 / 60))
     (airplane_setTransform initial_pose (airplane_new controller_config))))) = Fin 7 \<and>
   js_le (Fin 2) (vy (pos (plane (airplane_update
     (\<lambda>c dt f. f\<lparr> pos := \<lparr> vx = Fin 0, vy = Fin (- 5), vz = Fin (- 3) \<rparr> \<rparr>) (Fin (1 / 60))
     (airplane_setTransform initial_pose (airplane_new controller_config))))))"
proof -
  have h: "cfg (airplane_setTransform initial_pose (airplane_new controller_config)) = controller_config"
    by (simp add: airplane_setTransform_def airplane_new_def)
  show ?thesis
    using h update_enforces_min_height
      [of "airplane_setTransform initial_pose (airplane_new controller_config)"
        "\<lambda>c dt f. f\<lparr> pos := \<lparr> vx = Fin 0, vy = Fin (- 5), vz = Fin (- 3) \<rparr> \<rparr>" "Fin (1 / 60)"]
    by (simp add: airplane_update_def enforce_min_height_def airplane_setTransform_def
        airplane_new_def minY_controller_config js_le_def)
qed

text \<open>
  C6. For a throttle \<open>x\<close> that is a double with \<open>0 \<le> x \<le> 1\<close>, the percentage the HUD
  shows, \<open>(x * 100) | 0\<close> with the product rounded to a double, is an integer from 0 to
  100, and it is 100 exactly when \<open>x\<close> is 1: the largest double below 1 already gives 99.
\<close>

theorem throttle_percent_range:
  assumes "wf_num x" and "js_le (Fin 0) x" and "js_le x (Fin 1)"
  shows "0 \<le> to_int32 (js_mul x (lit 100)) \<and> to_int32 (js_mul x (lit 100)) \<le> 100 \<and>
    (to_int32 (js_mul x (lit 100)) = 100 \<longleftrightarrow> x = Fin 1)"
proof (cases x)
  case NaN
  with assms(2) show ?thesis by (simp add: js_le_def)
next
  case PInf
  with assms(3) show ?thesis by (simp add: js_le_def)
next
  case NInf
  with assms(2) show ?thesis by (simp add: js_le_def)
next
  case NZero
  then show ?thesis by (simp add: js_mul_def lit_100 signed_zero_def to_int32_def)
next
  case (Fin q)
  with assms have q: "is_double q" "0 \<le> q" "q \<le> 1" by (simp_all add: js_le_def)
  show ?thesis
  proof (cases "q = 0")
    case True
    then show ?thesis using Fin by (simp add: js_mul_def lit_100 signed_zero_def to_int32_def)
  next
    case False
    with q have qpos: "0 < q" by simp
    from percent_rounding [OF q(1) qpos q(3)] obtain r where
      r: "round_double (q * 100) = Fin r" "0 \<le> r" "r \<le> 100" "r = 100 \<longleftrightarrow> q = 1"
      by blast
    have m: "js_mul x (lit 100) = Fin r"
      using Fin False r(1) by (simp add: js_mul_def lit_100)
    have lt31: "r < 2 ^ 31" using r(3) by (rule le_less_trans) simp
    have t: "to_int32 (Fin r) = \<lfloor>r\<rfloor>" using r(2) lt31 by (rule to_int32_small)
    have f0: "0 \<le> \<lfloor>r\<rfloor>" using r(2) by simp
    have "r \<le> of_int 100" using r(3) by simp
    then have f1: "\<lfloor>r\<rfloor> \<le> 100" by (simp only: floor_le_iff)
    have "\<lfloor>r\<rfloor> = 100 \<longleftrightarrow> r = 100"
    proof
      assume "\<lfloor>r\<rfloor> = 100"
      then have "(100::int) \<le> \<lfloor>r\<rfloor>" by simp
      then have "of_int 100 \<le> r" by (simp only: le_floor_iff)
      with r(3) show "r = 100" by simp
    next
      assume "r = 100"
      then show "\<lfloor>r\<rfloor> = 100" by simp
    qed
    then show ?thesis using m t f0 f1 r(4) Fin by simp
  qed
qed

theorem throttle_percent_range_witness:
  "wf_num (Fin (1 - 1 / 2 ^ 53)) \<and> js_le (Fin 0) (Fin (1 - 1 / 2 ^ 53)) \<and>
   js_le (Fin (1 - 1 / 2 ^ 53)) (Fin 1) \<and>
   to_int32 (js_mul (Fin (1 - 1 / 2 ^ 53)) (lit 100)) = 99 \<and>
   to_int32 (js_mul (Fin (1 - 1 / 2 ^ 53)) (lit 100)) \<le> 100 \<and>
   to_int32 (js_mul (Fin (1 / 2)) (lit 100)) = 50"
proof -
  have w: "wf_num (Fin (1 - 1 / 2 ^ 53))" using is_double_below_one by simp
  have l: "js_le (Fin 0) (Fin (1 - 1 / 2 ^ 53))" by (simp add: js_le_def)
  have u: "js_le (Fin (1 - 1 / 2 ^ 53)) (Fin 1)" by (simp add: js_le_def)
  show ?thesis
    using w l u throttle_percent_range [OF w l u] percent_below_one percent_half
    by simp
qed

end
